theory Spec2Isabelle
  imports Main "HOL-Library.AList" "HOL-Library.Sublist"
begin

section \<open>Bounded cache: class CacheManager\<close>

text \<open>
  Times are milliseconds as returned by \<^verbatim>\<open>Date.now()\<close>; every function that reads the
  clock takes the reading as its argument \<open>now\<close>.  The payload type is arbitrary
  (\<^verbatim>\<open>data: any\<close>); the two library computations on it are arguments of the model:
  \<open>J d\<close> is \<^verbatim>\<open>JSON.stringify(d).length\<close> and \<open>H d\<close> is the hexadecimal SHA-256 digest
  computed by \<^verbatim>\<open>generateETag\<close>.
\<close>

definition STALE_WHILE_REVALIDATE :: int where
  "STALE_WHILE_REVALIDATE = 5 * 60 * 1000"

definition MAX_CACHE_ITEMS :: nat where
  "MAX_CACHE_ITEMS = 1000"

definition MAX_CACHE_SIZE :: int where
  "MAX_CACHE_SIZE = 5 * 1024 * 1024"

record 'a cache_entry =
  data :: 'a
  timestamp :: int
  etag :: string

text \<open>
  The JavaScript \<^verbatim>\<open>Map\<close> keeps its keys in insertion order, and the eviction loop sorts
  \<^verbatim>\<open>Array.from(this.cache.entries())\<close> with a stable sort, so the order matters: the map
  is an association list in insertion order.  \<open>AList.update\<close> overwrites in place or
  appends, as \<^verbatim>\<open>Map.prototype.set\<close> does; \<open>AList.delete\<close> is \<^verbatim>\<open>Map.prototype.delete\<close>.
  The field \<open>size_total\<close> is the running counter \<^verbatim>\<open>this.size\<close>.
\<close>

record 'a CacheManager =
  cache :: "(string \<times> 'a cache_entry) list"
  size_total :: int

definition CacheManager_new :: "'a CacheManager" where
  "CacheManager_new = \<lparr>cache = [], size_total = 0\<rparr>"

definition CacheManager_get ::
  "('a \<Rightarrow> nat) \<Rightarrow> 'a CacheManager \<Rightarrow> string \<Rightarrow> int \<Rightarrow> int \<Rightarrow> ('a \<times> bool) option \<times> 'a CacheManager"
where
  "CacheManager_get J c key ttl now =
     (case map_of (cache c) key of
        None \<Rightarrow> (None, c)
      | Some cached \<Rightarrow>
          (let age = now - timestamp cached in
           if age > ttl + STALE_WHILE_REVALIDATE
           then (None, c\<lparr>cache := AList.delete key (cache c),
                          size_total := size_total c - int (J (data cached))\<rparr>)
           else (Some (data cached, age > ttl), c)))"

text \<open>The entries sorted by ascending timestamp (stable), as the loop body computes them.\<close>

definition sorted_entries :: "(string \<times> 'a cache_entry) list \<Rightarrow> (string \<times> 'a cache_entry) list" where
  "sorted_entries al = sort_key (\<lambda>p. timestamp (snd p)) al"

lemma length_delete_present:
  "map_of al k = Some v \<Longrightarrow> length (AList.delete k al) < length al"
proof (induction al)
  case Nil
  then show ?case by simp
next
  case (Cons p al)
  show ?case
  proof (cases "fst p = k")
    case True
    have "length (AList.delete k al) \<le> length al" by (rule AList.length_delete_le)
    with True show ?thesis by (cases p) simp
  next
    case False
    with Cons show ?thesis by (cases p) (simp split: if_splits)
  qed
qed

text \<open>
  The \<^verbatim>\<open>while\<close> loop at the head of \<^verbatim>\<open>set\<close>; \<open>sz\<close> is the serialised length of the value
  about to be written.  Each of the three \<^verbatim>\<open>break\<close>s leaves the loop with the state as
  it is.  Beside the state the model returns the entries the loop deleted, in the order of
  their deletion (a log the source does not keep; no branch reads it).
\<close>

function evict_loop ::
  "('a \<Rightarrow> nat) \<Rightarrow> 'a CacheManager \<Rightarrow> int \<Rightarrow> (string \<times> 'a cache_entry) list \<times> 'a CacheManager"
where
  "evict_loop J c sz =
     (if size_total c + sz > MAX_CACHE_SIZE \<or> length (cache c) \<ge> MAX_CACHE_ITEMS
      then (case sorted_entries (cache c) of
              [] \<Rightarrow> ([], c)
            | firstEntry # _ \<Rightarrow>
                (let oldestKey = fst firstEntry in
                 case map_of (cache c) oldestKey of
                   None \<Rightarrow> ([], c)
                 | Some evicted \<Rightarrow>
                     (let r = evict_loop J
                                (c\<lparr>size_total := size_total c - int (J (data evicted)),
                                   cache := AList.delete oldestKey (cache c)\<rparr>) sz
                      in ((oldestKey, evicted) # fst r, snd r))))
      else ([], c))"
  by pat_completeness auto
termination
  by (relation "measure (\<lambda>(J, c, sz). length (cache c))")
     (auto simp: length_delete_present)


text \<open>
  \<^verbatim>\<open>set\<close> is an \<^verbatim>\<open>async\<close> method with one \<^verbatim>\<open>await\<close>: it runs the eviction loop, evaluates
  \<^verbatim>\<open>Date.now()\<close>, and suspends at \<^verbatim>\<open>await this.generateETag(data)\<close>; \<^verbatim>\<open>Map.prototype.set\<close>
  and \<^verbatim>\<open>this.size += size\<close> run when it resumes, on the cache as it is then.  The model has
  the two halves: \<open>CacheManager_set_evict\<close> runs up to the suspension and returns what the
  second half needs (the key, the value, the timestamp already taken and the serialised
  length) with the cache it leaves; \<open>CacheManager_set_insert\<close> runs from the resumption on
  the cache it finds.  Other cache operations can run between the two.
\<close>

record 'a pending_insert =
  pending_key :: string
  pending_data :: 'a
  pending_timestamp :: int
  pending_size :: int

definition CacheManager_set_evict ::
  "('a \<Rightarrow> nat) \<Rightarrow> 'a CacheManager \<Rightarrow> string \<Rightarrow> 'a \<Rightarrow> int \<Rightarrow> int \<Rightarrow> 'a pending_insert \<times> 'a CacheManager"
where
  "CacheManager_set_evict J c key d ttl now =
     (let sz = int (J d);
          c' = snd (evict_loop J c sz)
      in (\<lparr>pending_key = key, pending_data = d, pending_timestamp = now, pending_size = sz\<rparr>, c'))"

definition CacheManager_set_insert ::
  "('a \<Rightarrow> string) \<Rightarrow> 'a CacheManager \<Rightarrow> 'a pending_insert \<Rightarrow> 'a CacheManager"
where
  "CacheManager_set_insert H c p =
     c\<lparr>cache := AList.update (pending_key p)
                  \<lparr>data = pending_data p, timestamp = pending_timestamp p, etag = H (pending_data p)\<rparr>
                  (cache c),
       size_total := size_total c + pending_size p\<rparr>"

text \<open>
  A \<^verbatim>\<open>set\<close> during whose suspension no other cache operation runs: the second half finds
  the cache as the first half left it.
\<close>

definition CacheManager_set ::
  "('a \<Rightarrow> nat) \<Rightarrow> ('a \<Rightarrow> string) \<Rightarrow> 'a CacheManager \<Rightarrow> string \<Rightarrow> 'a \<Rightarrow> int \<Rightarrow> int \<Rightarrow> 'a CacheManager"
where
  "CacheManager_set J H c key d ttl now =
     (let r = CacheManager_set_evict J c key d ttl now
      in CacheManager_set_insert H (snd r) (fst r))"




text \<open>
  Concrete instances of the arguments, used in the examples below: the payloads are
  strings of plain letters, whose \<^verbatim>\<open>JSON.stringify\<close> is the string between two quotes, and
  the digest is left constant.
\<close>

definition stringify_length_plain :: "string \<Rightarrow> nat" where
  "stringify_length_plain s = length s + 2"

definition etag_const :: "string \<Rightarrow> string" where
  "etag_const s = ''e3b0c442''"

definition example_cache :: "string CacheManager" where
  "example_cache =
     \<lparr>cache = [(''a'', \<lparr>data = replicate 3000000 CHR ''a'', timestamp = 1, etag = ''e3b0c442''\<rparr>),
               (''b'', \<lparr>data = replicate 2000000 CHR ''b'', timestamp = 2, etag = ''e3b0c442''\<rparr>)],
      size_total = 5000004\<rparr>"


section \<open>Properties of the bounded cache\<close>

declare evict_loop.simps [simp del]

lemma hd_sorted_entries_min:
  assumes "sorted_entries al = p # rest"
  shows "p \<in> set al \<and> (\<forall>q \<in> set al. timestamp (snd p) \<le> timestamp (snd q))"
proof -
  have s: "set (sorted_entries al) = set al"
    by (simp add: sorted_entries_def)
  have "sorted (map (\<lambda>p. timestamp (snd p)) (sorted_entries al))"
    by (simp add: sorted_entries_def)
  with assms have "\<forall>q \<in> set rest. timestamp (snd p) \<le> timestamp (snd q)"
    by simp
  moreover have "set al = insert p (set rest)"
    using s assms by simp
  ultimately show ?thesis by auto
qed

lemma map_of_member_distinct:
  "distinct (map fst al) \<Longrightarrow> p \<in> set al \<Longrightarrow> map_of al (fst p) = Some (snd p)"
  by (cases p) simp





lemma evict_loop_unfold_evict:
  assumes "size_total c + sz > MAX_CACHE_SIZE \<or> length (cache c) \<ge> MAX_CACHE_ITEMS"
    and "sorted_entries (cache c) = p # rest"
    and "map_of (cache c) (fst p) = Some e"
  shows "evict_loop J c sz =
           ((fst p, e) # fst (evict_loop J (c\<lparr>size_total := size_total c - int (J (data e)),
                                              cache := AList.delete (fst p) (cache c)\<rparr>) sz),
            snd (evict_loop J (c\<lparr>size_total := size_total c - int (J (data e)),
                                  cache := AList.delete (fst p) (cache c)\<rparr>) sz))"
  using assms by (subst evict_loop.simps) (simp add: Let_def)

lemma evict_loop_idle:
  assumes "\<not> (size_total c + sz > MAX_CACHE_SIZE \<or> length (cache c) \<ge> MAX_CACHE_ITEMS)"
  shows "evict_loop J c sz = ([], c)"
  using assms by (subst evict_loop.simps) simp

lemma evict_loop_empty:
  assumes "cache c = []"
  shows "evict_loop J c sz = ([], c)"
  using assms by (subst evict_loop.simps) (simp add: sorted_entries_def)














lemma evict_loop_distinct:
  "distinct (map fst (cache c)) \<Longrightarrow> distinct (map fst (cache (snd (evict_loop J c sz))))"
proof (induction J c sz rule: evict_loop.induct)
  case (1 J c sz)
  show ?case
  proof (cases "size_total c + sz > MAX_CACHE_SIZE \<or> length (cache c) \<ge> MAX_CACHE_ITEMS")
    case False
    with "1.prems" show ?thesis by (simp add: evict_loop_idle)
  next
    case guard: True
    show ?thesis
    proof (cases "sorted_entries (cache c)")
      case Nil
      then have "cache c = []"
        by (metis sorted_entries_def set_sort set_empty)
      then show ?thesis by (simp add: evict_loop_empty)
    next
      case (Cons p rest)
      then have "p \<in> set (cache c)" using hd_sorted_entries_min by blast
      then have e: "map_of (cache c) (fst p) = Some (snd p)"
        using "1.prems" by (simp add: map_of_member_distinct)
      have "distinct (map fst (AList.delete (fst p) (cache c)))"
        using "1.prems" by (rule AList.distinct_delete)
      with "1.IH"[OF guard Cons refl e] show ?thesis
        by (simp add: evict_loop_unfold_evict[OF guard Cons e])
    qed
  qed
qed

lemma distinct_set_insert:
  "distinct (map fst (cache c)) \<Longrightarrow> distinct (map fst (cache (CacheManager_set_insert H c p)))"
  by (simp add: CacheManager_set_insert_def AList.distinct_update)

lemma distinct_set:
  "distinct (map fst (cache c)) \<Longrightarrow> distinct (map fst (cache (CacheManager_set J H c key d ttl now)))"
  by (simp add: CacheManager_set_def CacheManager_set_evict_def Let_def distinct_set_insert
        evict_loop_distinct)

lemma distinct_get:
  "distinct (map fst (cache c)) \<Longrightarrow> distinct (map fst (cache (snd (CacheManager_get J c key ttl now))))"
  by (simp add: CacheManager_get_def Let_def AList.distinct_delete split: option.splits)

lemma distinct_new: "distinct (map fst (cache CacheManager_new))"
  by (simp add: CacheManager_new_def)

text \<open>
  Whatever ran during the suspension, the entry is under its key when \<^verbatim>\<open>set\<close> has resumed.
\<close>

lemma map_of_set_insert:
  "map_of (cache (CacheManager_set_insert H c p)) (pending_key p)
     = Some \<lparr>data = pending_data p, timestamp = pending_timestamp p, etag = H (pending_data p)\<rparr>"
  by (simp add: CacheManager_set_insert_def AList.update_conv')

lemma map_of_set_same:
  "map_of (cache (CacheManager_set J H c key v ttl0 t0)) key
     = Some \<lparr>data = v, timestamp = t0, etag = H v\<rparr>"
  using map_of_set_insert[of H "snd (CacheManager_set_evict J c key v ttl0 t0)"
          "fst (CacheManager_set_evict J c key v ttl0 t0)"]
  by (simp add: CacheManager_set_def CacheManager_set_evict_def Let_def)

text \<open>
  Claim C4.  A \<^verbatim>\<open>get\<close> that follows a \<^verbatim>\<open>set\<close> of the same key sees the entry at age
  \<open>t1 - t0\<close>: up to the TTL it returns the value written with \<open>stale = False\<close> and leaves
  the cache as it is; past the TTL and up to TTL plus the stale-while-revalidate window it
  returns the same value with \<open>stale = True\<close>; past that it returns nothing, and the entry
  is deleted and its serialised length taken off the running size.
\<close>

theorem get_after_set:
  fixes c :: "'a CacheManager"
  shows
  "(t1 - t0 \<le> ttl \<longrightarrow>
      CacheManager_get J (CacheManager_set J H c key v ttl0 t0) key ttl t1
        = (Some (v, False), CacheManager_set J H c key v ttl0 t0)) \<and>
   (ttl < t1 - t0 \<and> t1 - t0 \<le> ttl + STALE_WHILE_REVALIDATE \<longrightarrow>
      CacheManager_get J (CacheManager_set J H c key v ttl0 t0) key ttl t1
        = (Some (v, True), CacheManager_set J H c key v ttl0 t0)) \<and>
   (ttl + STALE_WHILE_REVALIDATE < t1 - t0 \<longrightarrow>
      fst (CacheManager_get J (CacheManager_set J H c key v ttl0 t0) key ttl t1) = None \<and>
      map_of (cache (snd (CacheManager_get J (CacheManager_set J H c key v ttl0 t0) key ttl t1))) key
        = None \<and>
      cache (snd (CacheManager_get J (CacheManager_set J H c key v ttl0 t0) key ttl t1))
        = AList.delete key (cache (CacheManager_set J H c key v ttl0 t0)) \<and>
      size_total (snd (CacheManager_get J (CacheManager_set J H c key v ttl0 t0) key ttl t1))
        = size_total (CacheManager_set J H c key v ttl0 t0) - int (J v))"
proof -
  let ?c1 = "CacheManager_set J H c key v ttl0 t0"
  have look: "map_of (cache ?c1) key = Some \<lparr>data = v, timestamp = t0, etag = H v\<rparr>"
    by (rule map_of_set_same)
  have fresh: "t1 - t0 \<le> ttl \<Longrightarrow> CacheManager_get J ?c1 key ttl t1 = (Some (v, False), ?c1)"
    using look by (simp add: CacheManager_get_def Let_def STALE_WHILE_REVALIDATE_def)
  have stale: "ttl < t1 - t0 \<Longrightarrow> t1 - t0 \<le> ttl + STALE_WHILE_REVALIDATE \<Longrightarrow>
      CacheManager_get J ?c1 key ttl t1 = (Some (v, True), ?c1)"
    using look by (simp add: CacheManager_get_def Let_def)
  have gone: "ttl + STALE_WHILE_REVALIDATE < t1 - t0 \<Longrightarrow>
      CacheManager_get J ?c1 key ttl t1
        = (None, ?c1\<lparr>cache := AList.delete key (cache ?c1),
                      size_total := size_total ?c1 - int (J v)\<rparr>)"
    using look by (simp add: CacheManager_get_def Let_def)
  show ?thesis
    using fresh stale gone by (simp add: AList.delete_conv')
qed

theorem get_after_set_witness:
  "CacheManager_get stringify_length_plain (CacheManager_set stringify_length_plain etag_const CacheManager_new ''k'' ''abc'' 60000 1000)
       ''k'' 60000 2000
     = (Some (''abc'', False),
        CacheManager_set stringify_length_plain etag_const CacheManager_new ''k'' ''abc'' 60000 1000) \<and>
   CacheManager_get stringify_length_plain (CacheManager_set stringify_length_plain etag_const CacheManager_new ''k'' ''abc'' 60000 1000)
       ''k'' 60000 100000
     = (Some (''abc'', True),
        CacheManager_set stringify_length_plain etag_const CacheManager_new ''k'' ''abc'' 60000 1000) \<and>
   fst (CacheManager_get stringify_length_plain
         (CacheManager_set stringify_length_plain etag_const CacheManager_new ''k'' ''abc'' 60000 1000)
         ''k'' 60000 400000) = None"
  using get_after_set [of 2000 1000 60000 stringify_length_plain etag_const CacheManager_new "''k''" "''abc''" 60000]
        get_after_set [of 100000 1000 60000 stringify_length_plain etag_const CacheManager_new "''k''" "''abc''" 60000]
        get_after_set [of 400000 1000 60000 stringify_length_plain etag_const CacheManager_new "''k''" "''abc''" 60000]
  by (simp add: STALE_WHILE_REVALIDATE_def)




text \<open>
  What the loop does on the example, where the two entries and the new value together
  exceed the size ceiling: the older entry \<open>a\<close> goes, after which the new value fits, and the
  newer entry \<open>b\<close> stays.
\<close>

lemma example_cache_evicts_a:
  "evict_loop stringify_length_plain example_cache 1000002
     = ([(''a'', \<lparr>data = replicate 3000000 CHR ''a'', timestamp = 1, etag = ''e3b0c442''\<rparr>)],
        \<lparr>cache = [(''b'', \<lparr>data = replicate 2000000 CHR ''b'', timestamp = 2, etag = ''e3b0c442''\<rparr>)],
         size_total = 2000002\<rparr>)"
  by (subst evict_loop.simps, subst evict_loop.simps)
     (simp add: example_cache_def stringify_length_plain_def
        MAX_CACHE_SIZE_def MAX_CACHE_ITEMS_def sorted_entries_def Let_def)





section \<open>Request queue with circuit breaker: class RequestQueue and fetchWithRetry\<close>

definition failureThreshold :: nat where
  "failureThreshold = 5"

definition resetTimeout :: int where
  "resetTimeout = 30000"

definition halfOpenTimeout :: int where
  "halfOpenTimeout = 10000"

definition MAX_RETRIES :: nat where
  "MAX_RETRIES = 3"

definition INITIAL_RETRY_DELAY :: nat where
  "INITIAL_RETRY_DELAY = 1000"

definition API_TIMEOUT :: nat where
  "API_TIMEOUT = 10000"

text \<open>
  The circuit breaker reads and writes two maps of the queue, keyed by the endpoint (the
  request URL).  The scheduling fields of the class (\<^verbatim>\<open>queue\<close>, \<^verbatim>\<open>running\<close>), the
  response-time window and the adaptive delay decide when a queued closure starts, not
  what it does to these maps, and are left out.
\<close>

record RequestQueue =
  failures :: "string \<rightharpoonup> nat"
  lastFailureTime :: "string \<rightharpoonup> int"

definition RequestQueue_new :: RequestQueue where
  "RequestQueue_new = \<lparr>failures = Map.empty, lastFailureTime = Map.empty\<rparr>"

definition failures_of :: "RequestQueue \<Rightarrow> string \<Rightarrow> nat" where
  "failures_of q endpoint = (case failures q endpoint of None \<Rightarrow> 0 | Some n \<Rightarrow> n)"

definition lastFailure_of :: "RequestQueue \<Rightarrow> string \<Rightarrow> int" where
  "lastFailure_of q endpoint = (case lastFailureTime q endpoint of None \<Rightarrow> 0 | Some t \<Rightarrow> t)"

definition isCircuitOpen :: "RequestQueue \<Rightarrow> string \<Rightarrow> int \<Rightarrow> bool \<times> RequestQueue" where
  "isCircuitOpen q endpoint now =
     (let failures = failures_of q endpoint;
          lastFailure = lastFailure_of q endpoint
      in if failures \<ge> failureThreshold
         then if now - lastFailure < resetTimeout then (True, q)
              else if now - lastFailure < resetTimeout + halfOpenTimeout then (False, q)
              else (False, q\<lparr>failures := (RequestQueue.failures q)(endpoint \<mapsto> 0)\<rparr>)
         else (False, q))"

text \<open>
  The closure that \<^verbatim>\<open>add\<close> queues: the circuit check, the call of \<open>fn\<close>, and then the
  success path (\<open>on_success\<close>: the failure count is set to zero) or the \<^verbatim>\<open>catch\<close> block
  (\<open>on_failure\<close>: the count is incremented and the time recorded).  The error thrown for an
  open circuit is thrown inside the same \<^verbatim>\<open>try\<close>, so it runs the \<^verbatim>\<open>catch\<close> block as well.
  \<open>fn\<close> is given by what running it would do: the events it causes and how it settles
  (\<open>Inl\<close> an error message, \<open>Inr\<close> the value); \<open>now\<close> is the clock at the check and
  \<open>now_end\<close> the clock when \<open>fn\<close> has failed.
\<close>

definition on_success :: "RequestQueue \<Rightarrow> string \<Rightarrow> RequestQueue" where
  "on_success q endpoint = q\<lparr>failures := (failures q)(endpoint \<mapsto> 0)\<rparr>"

definition on_failure :: "RequestQueue \<Rightarrow> string \<Rightarrow> int \<Rightarrow> RequestQueue" where
  "on_failure q endpoint now =
     q\<lparr>failures := (failures q)(endpoint \<mapsto> failures_of q endpoint + 1),
       lastFailureTime := (lastFailureTime q)(endpoint \<mapsto> now)\<rparr>"

datatype fetch_event = CircuitCheck string | HttpFetch string | Sleep nat

definition RequestQueue_add ::
  "RequestQueue \<Rightarrow> string \<Rightarrow> int \<Rightarrow> (fetch_event list \<times> (string + 'a)) \<Rightarrow> int
     \<Rightarrow> fetch_event list \<times> (string + 'a) \<times> RequestQueue"
where
  "RequestQueue_add q endpoint now fn now_end =
     (case isCircuitOpen q endpoint now of
        (True, q1) \<Rightarrow>
          ([CircuitCheck endpoint], Inl (''Circuit breaker open for '' @ endpoint),
           on_failure q1 endpoint now)
      | (False, q1) \<Rightarrow>
          (case fn of
             (evs, Inr result) \<Rightarrow> (CircuitCheck endpoint # evs, Inr result, on_success q1 endpoint)
           | (evs, Inl error) \<Rightarrow> (CircuitCheck endpoint # evs, Inl error, on_failure q1 endpoint now_end)))"

text \<open>
  \<^verbatim>\<open>fetchWithRetry\<close>.  The upstream is given by the outcome of each attempt, indexed by
  \<open>retryCount\<close>: a response (status, status text, body text), the abort raised by the 10 s
  timer, or another rejection of \<^verbatim>\<open>fetch\<close> with its message.  \<open>decimal\<close> is the rendering of
  a number in a template string and \<open>string_includes\<close> is \<^verbatim>\<open>String.prototype.includes\<close>.
\<close>

fun digit_char :: "nat \<Rightarrow> char" where
  "digit_char n = char_of (48 + n)"

fun decimal :: "nat \<Rightarrow> string" where
  "decimal n = (if n < 10 then [digit_char n] else decimal (n div 10) @ [digit_char (n mod 10)])"

declare decimal.simps [simp del]

fun string_includes :: "string \<Rightarrow> string \<Rightarrow> bool" where
  "string_includes [] needle = (needle = [])"
| "string_includes (c # cs) needle = (prefix needle (c # cs) \<or> string_includes cs needle)"

datatype fetch_outcome =
    Response nat string string
  | AbortError
  | FetchError string

definition response_ok :: "nat \<Rightarrow> bool" where
  "response_ok status = (200 \<le> status \<and> status \<le> 299)"

definition api_failed_message :: "nat \<Rightarrow> string \<Rightarrow> string \<Rightarrow> string" where
  "api_failed_message status statusText errorText =
     ''API request failed: '' @ decimal status @ '' '' @ statusText @ '' - '' @ errorText"

definition timed_out_message :: string where
  "timed_out_message = ''Request timed out after '' @ decimal API_TIMEOUT @ ''ms''"

text \<open>
  A retry: the failed request, the sleep of \<^verbatim>\<open>INITIAL_RETRY_DELAY * Math.pow(2, retryCount)\<close>
  milliseconds, then the recursive call.  A response that is not ok throws inside the
  \<^verbatim>\<open>try\<close> unless it is retried at once, and the \<^verbatim>\<open>catch\<close> block then looks for
  \<^verbatim>\<open>"429"\<close> in the message; the recursive call is returned without \<^verbatim>\<open>await\<close>, so its
  failure does not come back to this \<^verbatim>\<open>catch\<close>.
\<close>

definition after_backoff ::
  "string \<Rightarrow> nat \<Rightarrow> fetch_event list \<times> (string + string) \<Rightarrow> fetch_event list \<times> (string + string)"
where
  "after_backoff url retryCount r =
     (HttpFetch url # Sleep (INITIAL_RETRY_DELAY * 2 ^ retryCount) # fst r, snd r)"

function fetchWithRetry ::
  "(nat \<Rightarrow> fetch_outcome) \<Rightarrow> string \<Rightarrow> nat \<Rightarrow> fetch_event list \<times> (string + string)"
where
  "fetchWithRetry upstream url retryCount =
     (case upstream retryCount of
        Response status statusText body \<Rightarrow>
          if \<not> response_ok status
          then if status = 429 \<and> retryCount < MAX_RETRIES
               then after_backoff url retryCount (fetchWithRetry upstream url (retryCount + 1))
               else if string_includes (api_failed_message status statusText body) ''429''
                       \<and> retryCount < MAX_RETRIES
               then after_backoff url retryCount (fetchWithRetry upstream url (retryCount + 1))
               else ([HttpFetch url], Inl (api_failed_message status statusText body))
          else ([HttpFetch url], Inr body)
      | AbortError \<Rightarrow> ([HttpFetch url], Inl timed_out_message)
      | FetchError message \<Rightarrow>
          if string_includes message ''429'' \<and> retryCount < MAX_RETRIES
          then after_backoff url retryCount (fetchWithRetry upstream url (retryCount + 1))
          else ([HttpFetch url], Inl message))"
  by pat_completeness auto
termination
  by (relation "measure (\<lambda>(upstream, url, retryCount). MAX_RETRIES - retryCount)") auto

declare fetchWithRetry.simps [simp del]

definition fetchWithTimeout ::
  "RequestQueue \<Rightarrow> (nat \<Rightarrow> fetch_outcome) \<Rightarrow> string \<Rightarrow> int \<Rightarrow> int
     \<Rightarrow> fetch_event list \<times> (string + string) \<times> RequestQueue"
where
  "fetchWithTimeout q upstream url now now_end =
     RequestQueue_add q url now (fetchWithRetry upstream url 0) now_end"

text \<open>Three upstreams for the examples.\<close>

definition always_429 :: "nat \<Rightarrow> fetch_outcome" where
  "always_429 i = Response 429 ''Too Many Requests'' ''slow down''"

definition once_429 :: "nat \<Rightarrow> fetch_outcome" where
  "once_429 i = (if i = 0 then Response 429 ''Too Many Requests'' ''slow down''
                 else Response 200 ''OK'' ''{}'')"

definition once_timeout :: "nat \<Rightarrow> fetch_outcome" where
  "once_timeout i = (if i = 0 then AbortError else Response 200 ''OK'' ''{}'')"


text \<open>
  For the statements below: the outcomes after which the code retries (while
  \<open>retryCount < MAX_RETRIES\<close>), the result an attempt gives when it is the last one, and the
  events of the attempts \<open>r, \<dots>, k - 1\<close> when each of them is retried.
\<close>

definition retryable :: "fetch_outcome \<Rightarrow> bool" where
  "retryable outcome =
     (case outcome of
        Response status statusText body \<Rightarrow>
          \<not> response_ok status \<and>
          (status = 429 \<or> string_includes (api_failed_message status statusText body) ''429'')
      | AbortError \<Rightarrow> False
      | FetchError message \<Rightarrow> string_includes message ''429'')"

definition final_result :: "fetch_outcome \<Rightarrow> string + string" where
  "final_result outcome =
     (case outcome of
        Response status statusText body \<Rightarrow>
          if response_ok status then Inr body else Inl (api_failed_message status statusText body)
      | AbortError \<Rightarrow> Inl timed_out_message
      | FetchError message \<Rightarrow> Inl message)"

definition backoff_schedule :: "string \<Rightarrow> nat \<Rightarrow> nat \<Rightarrow> fetch_event list" where
  "backoff_schedule url r k =
     concat (map (\<lambda>i. [HttpFetch url, Sleep (INITIAL_RETRY_DELAY * 2 ^ i)]) [r..<k])"

text \<open>A queue on which the endpoint \<open>u\<close> has failed five times, last at time 4000.\<close>

definition tripped_queue :: RequestQueue where
  "tripped_queue =
     on_failure (on_failure (on_failure (on_failure (on_failure RequestQueue_new
       ''u'' 0) ''u'' 1000) ''u'' 2000) ''u'' 3000) ''u'' 4000"

section \<open>Properties of the request queue\<close>

lemma fetchWithRetry_retry:
  assumes "retryable (upstream r)" and "r < MAX_RETRIES"
  shows "fetchWithRetry upstream url r
           = after_backoff url r (fetchWithRetry upstream url (r + 1))"
  using assms
  by (subst fetchWithRetry.simps) (auto simp: retryable_def split: fetch_outcome.splits)

lemma fetchWithRetry_final:
  assumes "r = MAX_RETRIES \<or> \<not> retryable (upstream r)"
  shows "fetchWithRetry upstream url r = ([HttpFetch url], final_result (upstream r))"
  using assms
  by (subst fetchWithRetry.simps)
     (auto simp: retryable_def final_result_def split: fetch_outcome.splits)

lemma backoff_schedule_step:
  "r < k \<Longrightarrow> backoff_schedule url r k
     = HttpFetch url # Sleep (INITIAL_RETRY_DELAY * 2 ^ r) # backoff_schedule url (Suc r) k"
  by (simp add: backoff_schedule_def upt_conv_Cons)

lemma fetchWithRetry_trace:
  assumes "r \<le> k" and "k \<le> MAX_RETRIES"
    and "\<forall>i. r \<le> i \<and> i < k \<longrightarrow> retryable (upstream i)"
    and "k = MAX_RETRIES \<or> \<not> retryable (upstream k)"
  shows "fetchWithRetry upstream url r
           = (backoff_schedule url r k @ [HttpFetch url], final_result (upstream k))"
  using assms
proof (induction "k - r" arbitrary: r)
  case 0
  then have "r = k" by simp
  with "0.prems" show ?case
    by (simp add: fetchWithRetry_final backoff_schedule_def)
next
  case (Suc n)
  then have lt: "r < k" by simp
  have rt: "retryable (upstream r)" using Suc.prems lt by simp
  have rec: "fetchWithRetry upstream url (Suc r)
           = (backoff_schedule url (Suc r) k @ [HttpFetch url], final_result (upstream k))"
    using Suc.hyps(1)[of "Suc r"] Suc.hyps(2) Suc.prems lt by simp
  have "r < MAX_RETRIES" using lt Suc.prems by simp
  then show ?case
    using rt rec lt
    by (simp add: fetchWithRetry_retry after_backoff_def backoff_schedule_step)
qed

lemma fetchWithRetry_events:
  "e \<in> set (fst (fetchWithRetry upstream url r)) \<Longrightarrow> (\<exists>d. e = Sleep d) \<or> e = HttpFetch url"
proof (induction upstream url r rule: fetchWithRetry.induct)
  case (1 upstream url retryCount)
  show ?case
  proof (cases "retryable (upstream retryCount) \<and> retryCount < MAX_RETRIES")
    case True
    then have "fetchWithRetry upstream url retryCount
                 = after_backoff url retryCount (fetchWithRetry upstream url (retryCount + 1))"
      by (simp add: fetchWithRetry_retry)
    with "1.prems" have
      "e = HttpFetch url \<or> e = Sleep (INITIAL_RETRY_DELAY * 2 ^ retryCount) \<or>
       e \<in> set (fst (fetchWithRetry upstream url (retryCount + 1)))"
      by (auto simp: after_backoff_def)
    moreover have "e \<in> set (fst (fetchWithRetry upstream url (retryCount + 1))) \<Longrightarrow>
        (\<exists>d. e = Sleep d) \<or> e = HttpFetch url"
      using True "1.IH" by (auto simp: retryable_def split: fetch_outcome.splits)
    ultimately show ?thesis by blast
  next
    case False
    then have "fetchWithRetry upstream url retryCount = ([HttpFetch url], final_result (upstream retryCount))"
      by (subst fetchWithRetry.simps)
         (auto simp: retryable_def final_result_def split: fetch_outcome.splits)
    with "1.prems" show ?thesis by simp
  qed
qed

lemma circuit_cases:
  "(failures_of q e < failureThreshold \<longrightarrow> isCircuitOpen q e now = (False, q)) \<and>
   (failureThreshold \<le> failures_of q e \<and> now - lastFailure_of q e < resetTimeout
      \<longrightarrow> isCircuitOpen q e now = (True, q)) \<and>
   (failureThreshold \<le> failures_of q e \<and> resetTimeout \<le> now - lastFailure_of q e \<and>
    now - lastFailure_of q e < resetTimeout + halfOpenTimeout
      \<longrightarrow> isCircuitOpen q e now = (False, q)) \<and>
   (failureThreshold \<le> failures_of q e \<and> resetTimeout + halfOpenTimeout \<le> now - lastFailure_of q e
      \<longrightarrow> isCircuitOpen q e now = (False, q\<lparr>failures := (failures q)(e \<mapsto> 0)\<rparr>))"
  by (auto simp: isCircuitOpen_def Let_def halfOpenTimeout_def resetTimeout_def)

lemma after_success:
  "failures_of (on_success q e) e = 0 \<and> isCircuitOpen (on_success q e) e t = (False, on_success q e)"
  by (simp add: on_success_def failures_of_def isCircuitOpen_def Let_def failureThreshold_def)

lemma after_failure:
  "failures_of (on_failure q e t) e = failures_of q e + 1 \<and>
   lastFailure_of (on_failure q e t) e = t"
  by (simp add: on_failure_def failures_of_def lastFailure_of_def)

lemma failures_of_new: "failures_of RequestQueue_new e = 0"
  by (simp add: failures_of_def RequestQueue_new_def)

lemma failures_counted:
  "failures_of (foldl (\<lambda>q t. on_failure q e t) q ts) e = failures_of q e + length ts"
  by (induction ts arbitrary: q) (simp_all add: after_failure)


lemma add_when_open:
  assumes "fst (isCircuitOpen q e now)"
  shows "fst (RequestQueue_add q e now fn now_end) = [CircuitCheck e] \<and>
         fst (snd (RequestQueue_add q e now fn now_end)) = Inl (''Circuit breaker open for '' @ e)"
  using assms by (cases "isCircuitOpen q e now") (simp add: RequestQueue_add_def)

lemma add_when_not_open:
  assumes "\<not> fst (isCircuitOpen q e now)"
  shows "fst (RequestQueue_add q e now fn now_end) = CircuitCheck e # fst fn \<and>
         fst (snd (RequestQueue_add q e now fn now_end)) = snd fn \<and>
         snd (snd (RequestQueue_add q e now fn now_end))
           = (case snd fn of Inr result \<Rightarrow> on_success (snd (isCircuitOpen q e now)) e
                           | Inl error \<Rightarrow> on_failure (snd (isCircuitOpen q e now)) e now_end)"
  using assms
  by (cases "isCircuitOpen q e now"; cases fn)
     (auto simp: RequestQueue_add_def split: sum.splits)

text \<open>
  Claim C2, as the code has it.  For an endpoint with failure count \<open>f\<close> and last failure
  time \<open>l\<close>: the check lets the dispatch through when \<open>f < 5\<close>; with \<open>f \<ge> 5\<close> it rejects
  while \<open>now - l < 30000\<close>, lets every dispatch through and leaves the state as it is while
  \<open>30000 \<le> now - l < 40000\<close> (the half-open window), and from \<open>40000\<close> on sets the count to
  zero and lets the dispatch through.  A rejected dispatch does not call \<open>fn\<close>; an admitted
  one calls it and then runs the success path or the failure path.  A success sets the
  count to zero and the circuit is closed; after a success and \<open>n\<close> failures the count is
  \<open>n\<close>; and after a failure at time \<open>t\<close> the circuit is open at \<open>t'\<close> exactly when the
  count has reached the threshold and \<open>t' - t < 30000\<close>.
\<close>

theorem circuit_breaker_window:
  "(failures_of q e < failureThreshold \<longrightarrow> isCircuitOpen q e now = (False, q)) \<and>
   (failureThreshold \<le> failures_of q e \<and> now - lastFailure_of q e < resetTimeout
      \<longrightarrow> isCircuitOpen q e now = (True, q)) \<and>
   (failureThreshold \<le> failures_of q e \<and> resetTimeout \<le> now - lastFailure_of q e \<and>
    now - lastFailure_of q e < resetTimeout + halfOpenTimeout
      \<longrightarrow> isCircuitOpen q e now = (False, q)) \<and>
   (failureThreshold \<le> failures_of q e \<and> resetTimeout + halfOpenTimeout \<le> now - lastFailure_of q e
      \<longrightarrow> isCircuitOpen q e now = (False, q\<lparr>failures := (failures q)(e \<mapsto> 0)\<rparr>)) \<and>
   (fst (isCircuitOpen q e now)
      \<longrightarrow> fst (RequestQueue_add q e now fn now_end) = [CircuitCheck e] \<and>
          fst (snd (RequestQueue_add q e now fn now_end)) = Inl (''Circuit breaker open for '' @ e)) \<and>
   (\<not> fst (isCircuitOpen q e now)
      \<longrightarrow> fst (RequestQueue_add q e now fn now_end) = CircuitCheck e # fst fn \<and>
          fst (snd (RequestQueue_add q e now fn now_end)) = snd fn \<and>
          snd (snd (RequestQueue_add q e now fn now_end))
            = (case snd fn of Inr result \<Rightarrow> on_success (snd (isCircuitOpen q e now)) e
                            | Inl error \<Rightarrow> on_failure (snd (isCircuitOpen q e now)) e now_end)) \<and>
   failures_of (on_success q e) e = 0 \<and>
   isCircuitOpen (on_success q e) e t' = (False, on_success q e) \<and>
   failures_of (foldl (\<lambda>q t. on_failure q e t) (on_success q e) ts) e = length ts \<and>
   (fst (isCircuitOpen (on_failure q e t) e t')
      \<longleftrightarrow> failureThreshold \<le> failures_of q e + 1 \<and> t' - t < resetTimeout)"
proof -
  have win: "fst (isCircuitOpen (on_failure q e t) e t')
      \<longleftrightarrow> failureThreshold \<le> failures_of q e + 1 \<and> t' - t < resetTimeout"
    by (simp add: isCircuitOpen_def Let_def after_failure)
  have cnt: "failures_of (foldl (\<lambda>q t. on_failure q e t) (on_success q e) ts) e = length ts"
    by (simp add: failures_counted after_success)
  show ?thesis
    using circuit_cases[of q e now] add_when_open[of q e now fn now_end]
      add_when_not_open[of q e now fn now_end] after_success[of q e t'] cnt win
    by blast
qed

theorem circuit_breaker_window_witness:
  "isCircuitOpen RequestQueue_new ''u'' 7 = (False, RequestQueue_new) \<and>
   isCircuitOpen tripped_queue ''u'' 33999 = (True, tripped_queue) \<and>
   isCircuitOpen tripped_queue ''u'' 34000 = (False, tripped_queue) \<and>
   isCircuitOpen tripped_queue ''u'' 44000
     = (False, tripped_queue\<lparr>failures := (failures tripped_queue)(''u'' \<mapsto> 0)\<rparr>) \<and>
   fst (RequestQueue_add tripped_queue ''u'' 33999 ([HttpFetch ''u''], Inr ''{}'') 34001)
     = [CircuitCheck ''u''] \<and>
   fst (RequestQueue_add tripped_queue ''u'' 34000 ([HttpFetch ''u''], Inr ''{}'') 34001)
     = [CircuitCheck ''u'', HttpFetch ''u'']"
proof -
  have f0: "failures_of RequestQueue_new ''u'' < failureThreshold"
    by (simp add: failures_of_def RequestQueue_new_def failureThreshold_def)
  have f5: "failureThreshold \<le> failures_of tripped_queue ''u''"
    by (simp add: tripped_queue_def after_failure failures_of_new failureThreshold_def)
  have l5: "lastFailure_of tripped_queue ''u'' = 4000"
    by (simp add: tripped_queue_def after_failure)
  note w1 = circuit_breaker_window [where q = RequestQueue_new and e = "''u''" and now = 7
      and fn = "([HttpFetch ''u''], Inr ''{}'')" and now_end = 8 and t' = 0 and ts = "[]" and t = 0]
  note w2 = circuit_breaker_window [where q = tripped_queue and e = "''u''" and now = 33999
      and fn = "([HttpFetch ''u''], Inr ''{}'')" and now_end = 34001 and t' = 0 and ts = "[]" and t = 0]
  note w3 = circuit_breaker_window [where q = tripped_queue and e = "''u''" and now = 34000
      and fn = "([HttpFetch ''u''], Inr ''{}'')" and now_end = 34001 and t' = 0 and ts = "[]" and t = 0]
  note w4 = circuit_breaker_window [where q = tripped_queue and e = "''u''" and now = 44000
      and fn = "([HttpFetch ''u''], Inr ''{}'')" and now_end = 44001 and t' = 0 and ts = "[]" and t = 0]
  have c1: "isCircuitOpen RequestQueue_new ''u'' 7 = (False, RequestQueue_new)"
    using w1 f0 by blast
  have c2: "isCircuitOpen tripped_queue ''u'' 33999 = (True, tripped_queue)"
    using w2 f5 l5 by (simp add: resetTimeout_def)
  have c3: "isCircuitOpen tripped_queue ''u'' 34000 = (False, tripped_queue)"
    using w3 f5 l5 by (simp add: resetTimeout_def halfOpenTimeout_def)
  have c4: "isCircuitOpen tripped_queue ''u'' 44000
     = (False, tripped_queue\<lparr>failures := (failures tripped_queue)(''u'' \<mapsto> 0)\<rparr>)"
    using w4 f5 l5 by (simp add: resetTimeout_def halfOpenTimeout_def)
  have c5: "fst (RequestQueue_add tripped_queue ''u'' 33999 ([HttpFetch ''u''], Inr ''{}'') 34001)
     = [CircuitCheck ''u'']"
    using w2 c2 by simp
  have c6: "fst (RequestQueue_add tripped_queue ''u'' 34000 ([HttpFetch ''u''], Inr ''{}'') 34001)
     = [CircuitCheck ''u'', HttpFetch ''u'']"
    using w3 c3 by simp
  show ?thesis
    using c1 c2 c3 c4 c5 c6 by simp
qed

text \<open>
  Claim C2 as stated fails in two places.  In the half-open window the check changes
  nothing, so a second dispatch that arrives before the first has settled is admitted as
  well (the queue runs up to three closures at once).  And a dispatch that comes 40 s or
  more after the last failure finds the count reset to zero by the check: when it fails the
  count is one and the circuit stays closed.
\<close>

theorem one_trial_counterexample:
  "isCircuitOpen tripped_queue ''u'' 34000 = (False, tripped_queue) \<and>
   isCircuitOpen tripped_queue ''u'' 34001 = (False, tripped_queue) \<and>
   failures_of (snd (isCircuitOpen tripped_queue ''u'' 44000)) ''u'' = 0 \<and>
   fst (isCircuitOpen (on_failure (snd (isCircuitOpen tripped_queue ''u'' 44000)) ''u'' 44500)
          ''u'' 44501) = False"
proof -
  have f5: "failures_of tripped_queue ''u'' = 5"
    by (simp add: tripped_queue_def after_failure failures_of_new)
  have l5: "lastFailure_of tripped_queue ''u'' = 4000"
    by (simp add: tripped_queue_def after_failure)
  have a: "isCircuitOpen tripped_queue ''u'' 34000 = (False, tripped_queue)"
    using f5 l5 by (simp add: isCircuitOpen_def Let_def failureThreshold_def resetTimeout_def halfOpenTimeout_def)
  have b: "isCircuitOpen tripped_queue ''u'' 34001 = (False, tripped_queue)"
    using f5 l5 by (simp add: isCircuitOpen_def Let_def failureThreshold_def resetTimeout_def halfOpenTimeout_def)
  have c: "isCircuitOpen tripped_queue ''u'' 44000
            = (False, tripped_queue\<lparr>failures := (failures tripped_queue)(''u'' \<mapsto> 0)\<rparr>)"
    using f5 l5 by (simp add: isCircuitOpen_def Let_def failureThreshold_def resetTimeout_def halfOpenTimeout_def)
  have d: "failures_of (tripped_queue\<lparr>failures := (failures tripped_queue)(''u'' \<mapsto> 0)\<rparr>) ''u'' = 0"
    by (simp add: failures_of_def)
  have e: "fst (isCircuitOpen (on_failure (tripped_queue\<lparr>failures := (failures tripped_queue)(''u'' \<mapsto> 0)\<rparr>) ''u'' 44500)
          ''u'' 44501) = False"
    using d by (simp add: isCircuitOpen_def Let_def after_failure failureThreshold_def)
  show ?thesis using a b c d e by simp
qed

text \<open>
  Claim C3, as the code has it.  Let attempt \<open>k \<le> 3\<close> be the first whose outcome is not
  retried (or \<open>k = 3\<close>): the request is sent \<open>k + 1\<close> times with sleeps of
  \<open>1000 * 2 ^ i\<close> ms after attempt \<open>i < k\<close>, and settles as attempt \<open>k\<close> does.  An outcome
  is retried when the status is 429 or the error message contains \<^verbatim>\<open>429\<close>; the abort of the
  timeout is not, it settles as the timed-out error at once.  The retries run inside the
  queued closure: the circuit is checked once, before the first attempt, and no attempt is
  followed by another check.
\<close>

theorem retry_on_429:
  assumes "k \<le> MAX_RETRIES"
    and "\<forall>i<k. retryable (upstream i)"
    and "k = MAX_RETRIES \<or> \<not> retryable (upstream k)"
  shows
  "fetchWithRetry upstream url 0
     = (backoff_schedule url 0 k @ [HttpFetch url], final_result (upstream k)) \<and>
   \<not> retryable AbortError \<and> final_result AbortError = Inl timed_out_message \<and>
   CircuitCheck url \<notin> set (fst (fetchWithRetry upstream url 0)) \<and>
   fst (fetchWithTimeout q upstream url now now_end)
     = (if fst (isCircuitOpen q url now) then [CircuitCheck url]
        else CircuitCheck url # backoff_schedule url 0 k @ [HttpFetch url])"
proof -
  have tr: "fetchWithRetry upstream url 0
     = (backoff_schedule url 0 k @ [HttpFetch url], final_result (upstream k))"
    using assms by (intro fetchWithRetry_trace) auto
  have ab: "\<not> retryable AbortError \<and> final_result AbortError = Inl timed_out_message"
    by (simp add: retryable_def final_result_def)
  have nc: "CircuitCheck url \<notin> set (fst (fetchWithRetry upstream url 0))"
    using fetchWithRetry_events[of "CircuitCheck url" upstream url 0] by auto
  have ft: "fst (fetchWithTimeout q upstream url now now_end)
     = (if fst (isCircuitOpen q url now) then [CircuitCheck url]
        else CircuitCheck url # backoff_schedule url 0 k @ [HttpFetch url])"
    using add_when_open[of q url now "fetchWithRetry upstream url 0" now_end]
      add_when_not_open[of q url now "fetchWithRetry upstream url 0" now_end] tr
    by (simp add: fetchWithTimeout_def)
  show ?thesis using tr ab nc ft by blast
qed

theorem retry_on_429_witness:
  "fetchWithRetry always_429 ''u'' 0
     = ([HttpFetch ''u'', Sleep 1000, HttpFetch ''u'', Sleep 2000, HttpFetch ''u'', Sleep 4000,
         HttpFetch ''u''],
        Inl (api_failed_message 429 ''Too Many Requests'' ''slow down''))"
proof -
  have r: "\<forall>i<3. retryable (always_429 i)"
    by (simp add: retryable_def always_429_def response_ok_def)
  have u: "[0..<3] = [0, Suc 0, Suc (Suc 0)]"
    by (simp add: upt_conv_Cons)
  show ?thesis
    using retry_on_429 [of 3 always_429 "''u''"] r
    by (simp add: MAX_RETRIES_def backoff_schedule_def u INITIAL_RETRY_DELAY_def
          final_result_def always_429_def response_ok_def)
qed

text \<open>
  Claim C3 as stated fails on both counts: a retry after a 429 is sent without a second
  circuit check, and a request that times out is not retried.
\<close>

theorem retry_counterexample:
  "fst (fetchWithTimeout RequestQueue_new once_429 ''u'' 0 5)
     = [CircuitCheck ''u'', HttpFetch ''u'', Sleep 1000, HttpFetch ''u''] \<and>
   fetchWithRetry once_timeout ''u'' 0 = ([HttpFetch ''u''], Inl timed_out_message)"
proof -
  have a: "fetchWithRetry once_429 ''u'' 0 = ([HttpFetch ''u'', Sleep 1000, HttpFetch ''u''], Inr ''{}'')"
    by (subst fetchWithRetry.simps, subst fetchWithRetry.simps)
       (simp add: once_429_def response_ok_def MAX_RETRIES_def after_backoff_def INITIAL_RETRY_DELAY_def)
  have b: "fetchWithRetry once_timeout ''u'' 0 = ([HttpFetch ''u''], Inl timed_out_message)"
    by (subst fetchWithRetry.simps) (simp add: once_timeout_def)
  have c: "isCircuitOpen RequestQueue_new ''u'' 0 = (False, RequestQueue_new)"
    by (simp add: isCircuitOpen_def Let_def failures_of_def RequestQueue_new_def failureThreshold_def)
  show ?thesis using a b c
    by (simp add: fetchWithTimeout_def RequestQueue_add_def)
qed

section \<open>Coalescing batcher: class BatchProcessor\<close>

text \<open>
  A promise handed out by \<^verbatim>\<open>add\<close> is identified by a number; \<open>promises\<close> holds the promises
  that have settled with their outcome (\<open>Inl\<close> the rejection, \<open>Inr\<close> the value), and a promise not
  in it is pending.  \<open>invoked\<close> and \<open>single_items\<close> are logs the source does not keep: the
  producers (\<^verbatim>\<open>fetchFn\<close>) called, with the key and the promise of their call, and the keys
  \<^verbatim>\<open>processSingleItem\<close> was called with.  \<open>timer\<close> says whether the batch timer is set.
\<close>

definition MAX_BATCH_SIZE :: nat where
  "MAX_BATCH_SIZE = 50"

record 'a BatchProcessor =
  queue :: "(string \<times> nat) list"
  processing :: bool
  timer :: bool
  promises :: "nat \<rightharpoonup> (string + 'a)"
  next_promise :: nat
  invoked :: "(string \<times> nat) list"
  single_items :: "string list"

definition BatchProcessor_new :: "'a BatchProcessor" where
  "BatchProcessor_new =
     \<lparr>queue = [], processing = False, timer = False, promises = Map.empty, next_promise = 0,
      invoked = [], single_items = []\<rparr>"

text \<open>\<^verbatim>\<open>resolve\<close> and \<^verbatim>\<open>reject\<close>: a promise settles once, a later call changes nothing.\<close>

definition settle :: "'a BatchProcessor \<Rightarrow> nat \<Rightarrow> string + 'a \<Rightarrow> 'a BatchProcessor" where
  "settle st p outcome =
     (case promises st p of
        None \<Rightarrow> st\<lparr>promises := (promises st)(p \<mapsto> outcome)\<rparr>
      | Some _ \<Rightarrow> st)"

text \<open>
  \<^verbatim>\<open>process\<close>, run to its end in one step: \<open>R key\<close> is how \<^verbatim>\<open>processSingleItem(key)\<close> of the
  subclass settles.
\<close>

definition process_item ::
  "(string \<Rightarrow> string + 'a) \<Rightarrow> 'a BatchProcessor \<Rightarrow> string \<times> nat \<Rightarrow> 'a BatchProcessor"
where
  "process_item R st item =
     settle (st\<lparr>single_items := single_items st @ [fst item]\<rparr>) (snd item) (R (fst item))"

definition BatchProcessor_process ::
  "(string \<Rightarrow> string + 'a) \<Rightarrow> 'a BatchProcessor \<Rightarrow> 'a BatchProcessor"
where
  "BatchProcessor_process R st =
     (if processing st \<or> length (queue st) = 0 then st
      else (let currentBatch = queue st;
                st1 = st\<lparr>processing := True, timer := False, queue := []\<rparr>;
                st2 = foldl (process_item R) st1 currentBatch
            in st2\<lparr>processing := False\<rparr>))"

text \<open>
  \<^verbatim>\<open>add(key, fetchFn)\<close> up to the call of \<^verbatim>\<open>fetchFn\<close>; it returns the promise.  The producer
  settles later, which is the step \<open>producer_settles\<close>
  (\<^verbatim>\<open>fetchFn().then(resolve).catch(reject)\<close>); the timer firing is the step \<open>timer_fires\<close>.
\<close>

definition BatchProcessor_add ::
  "(string \<Rightarrow> string + 'a) \<Rightarrow> 'a BatchProcessor \<Rightarrow> string \<Rightarrow> nat \<times> 'a BatchProcessor"
where
  "BatchProcessor_add R st key =
     (let st1 = (if length (queue st) \<ge> MAX_BATCH_SIZE then BatchProcessor_process R st else st);
          p = next_promise st1;
          st2 = st1\<lparr>next_promise := p + 1, queue := queue st1 @ [(key, p)]\<rparr>;
          st3 = (if \<not> processing st2 \<and> \<not> timer st2 then st2\<lparr>timer := True\<rparr> else st2);
          st4 = st3\<lparr>invoked := invoked st3 @ [(key, p)]\<rparr>
      in (p, st4))"

definition producer_settles :: "'a BatchProcessor \<Rightarrow> nat \<Rightarrow> string + 'a \<Rightarrow> 'a BatchProcessor" where
  "producer_settles st p outcome = settle st p outcome"

definition timer_fires :: "(string \<Rightarrow> string + 'a) \<Rightarrow> 'a BatchProcessor \<Rightarrow> 'a BatchProcessor" where
  "timer_fires R st = BatchProcessor_process R st"

text \<open>The producers called for one key, and a run of calls of \<^verbatim>\<open>add\<close>.\<close>

definition invocations :: "'a BatchProcessor \<Rightarrow> string \<Rightarrow> nat" where
  "invocations st key = length (filter (\<lambda>c. fst c = key) (invoked st))"

definition in_flight :: "'a BatchProcessor \<Rightarrow> string \<Rightarrow> bool" where
  "in_flight st key = (\<exists>c \<in> set (invoked st). fst c = key \<and> promises st (snd c) = None)"

definition add_all ::
  "(string \<Rightarrow> string + 'a) \<Rightarrow> 'a BatchProcessor \<Rightarrow> string list \<Rightarrow> 'a BatchProcessor"
where
  "add_all R st keys = foldl (\<lambda>st key. snd (BatchProcessor_add R st key)) st keys"

definition no_batch :: "string \<Rightarrow> string + nat" where
  "no_batch key = Inl ''processSingleItem must be implemented by subclasses''"

definition two_adds :: "nat BatchProcessor" where
  "two_adds = snd (BatchProcessor_add no_batch (snd (BatchProcessor_add no_batch BatchProcessor_new ''k'')) ''k'')"

section \<open>Properties of the batcher\<close>

lemma settle_invoked [simp]: "invoked (settle st p outcome) = invoked st"
  by (simp add: settle_def split: option.splits)

lemma process_item_invoked [simp]: "invoked (process_item R st item) = invoked st"
  by (simp add: process_item_def)

lemma foldl_process_item_invoked [simp]:
  "invoked (foldl (process_item R) st items) = invoked st"
  by (induction items arbitrary: st) simp_all

lemma process_invoked [simp]: "invoked (BatchProcessor_process R st) = invoked st"
  by (simp add: BatchProcessor_process_def Let_def)

lemma add_invoked:
  "invoked (snd (BatchProcessor_add R st key))
     = invoked st @ [(key, fst (BatchProcessor_add R st key))]"
  by (simp add: BatchProcessor_add_def Let_def)

lemma add_invocations:
  "invocations (snd (BatchProcessor_add R st key)) k
     = invocations st k + (if key = k then 1 else 0)"
  by (simp add: invocations_def add_invoked)

lemma add_all_invocations:
  "invocations (add_all R st keys) k = invocations st k + length (filter (\<lambda>key. key = k) keys)"
  by (induction keys arbitrary: st) (simp_all add: add_all_def add_invocations)

lemma settle_single_items [simp]: "single_items (settle st p outcome) = single_items st"
  by (simp add: settle_def split: option.splits)

lemma process_item_single_items [simp]:
  "single_items (process_item R st item) = single_items st @ [fst item]"
  by (simp add: process_item_def)

lemma foldl_process_item_single_items:
  "single_items (foldl (process_item R) st items) = single_items st @ map fst items"
  by (induction items arbitrary: st) simp_all

lemma process_single_items:
  "single_items (BatchProcessor_process R st)
     = (if processing st \<or> queue st = [] then single_items st
        else single_items st @ map fst (queue st))"
  by (simp add: BatchProcessor_process_def Let_def foldl_process_item_single_items)

lemma settle_pending:
  "promises st p = None \<Longrightarrow> promises (settle st p outcome) p = Some outcome"
  by (simp add: settle_def)

lemma settle_settled:
  "promises st p = Some old \<Longrightarrow> settle st p outcome = st"
  by (simp add: settle_def)


text \<open>
  Claim C1, as the code has it.  \<^verbatim>\<open>add\<close> calls the producer it is given on every call, also
  when an earlier call for the same key is still in flight: each call adds one entry for its
  key to the log of producers called, so a run of calls leaves as many producer calls for a
  key as there were calls of \<^verbatim>\<open>add\<close> with it.  A caller's promise, while pending, is settled
  by its own producer.
\<close>

theorem add_calls_every_producer:
  "invoked (snd (BatchProcessor_add R st key))
     = invoked st @ [(key, fst (BatchProcessor_add R st key))] \<and>
   (in_flight st key \<longrightarrow>
      invocations (snd (BatchProcessor_add R st key)) key = invocations st key + 1) \<and>
   invocations (add_all R st keys) k = invocations st k + length (filter (\<lambda>key. key = k) keys) \<and>
   (promises st' p = None \<longrightarrow> promises (producer_settles st' p outcome) p = Some outcome)"
  using add_invoked[of R st key] add_invocations[of R st key key]
    add_all_invocations[of R st keys k] settle_pending[of st' p outcome]
  by (simp add: producer_settles_def)

lemma first_add:
  "BatchProcessor_add no_batch (BatchProcessor_new :: nat BatchProcessor) ''k''
     = (0, \<lparr>queue = [(''k'', 0)], processing = False, timer = True, promises = Map.empty,
            next_promise = 1, invoked = [(''k'', 0)], single_items = []\<rparr>)"
  by (simp add: BatchProcessor_add_def BatchProcessor_new_def MAX_BATCH_SIZE_def Let_def)

lemma second_add:
  "two_adds
     = \<lparr>queue = [(''k'', 0), (''k'', 1)], processing = False, timer = True, promises = Map.empty,
        next_promise = 2, invoked = [(''k'', 0), (''k'', 1)], single_items = []\<rparr>"
  by (simp add: two_adds_def first_add)
     (simp add: BatchProcessor_add_def MAX_BATCH_SIZE_def Let_def)

theorem add_calls_every_producer_witness:
  "in_flight (snd (BatchProcessor_add no_batch (BatchProcessor_new :: nat BatchProcessor) ''k'')) ''k'' \<and>
   invocations two_adds ''k'' = 2 \<and>
   promises (producer_settles two_adds 1 (Inr 7)) 1 = Some (Inr 7)"
proof -
  let ?st = "snd (BatchProcessor_add no_batch (BatchProcessor_new :: nat BatchProcessor) ''k'')"
  have f: "in_flight ?st ''k''"
    by (simp add: first_add in_flight_def)
  have i: "invocations ?st ''k'' = 1"
    by (simp add: first_add invocations_def)
  have p: "promises two_adds 1 = None"
    by (simp add: second_add)
  note w = add_calls_every_producer [where R = no_batch and st = ?st and key = "''k''"
      and keys = "[]" and k = "''k''" and st' = two_adds and p = 1 and outcome = "Inr 7"]
  have "invocations two_adds ''k'' = 2"
    using w f i by (simp add: two_adds_def)
  moreover have "promises (producer_settles two_adds 1 (Inr 7)) 1 = Some (Inr 7)"
    using w p by blast
  ultimately show ?thesis using f by simp
qed

text \<open>
  Claim C1 as stated fails: a second \<^verbatim>\<open>add\<close> for a key whose first call is still pending
  calls its producer as well, and the two callers are settled each by its own producer,
  here one with a value and one with a failure.
\<close>

theorem add_twice_counterexample:
  "promises (snd (BatchProcessor_add no_batch (BatchProcessor_new :: nat BatchProcessor) ''k'')) 0 = None \<and>
   invoked two_adds = [(''k'', 0), (''k'', 1)] \<and>
   promises (producer_settles (producer_settles two_adds 0 (Inr 10)) 1 (Inl ''boom'')) 0
     = Some (Inr 10) \<and>
   promises (producer_settles (producer_settles two_adds 0 (Inr 10)) 1 (Inl ''boom'')) 1
     = Some (Inl ''boom'')"
  by (simp add: first_add second_add producer_settles_def settle_def)

section \<open>Upstream messages and the domain model\<close>

text \<open>
  The upstream message (\<^verbatim>\<open>SnapchainMessage\<close>) with the fields the server reads, and the
  domain records of \<^verbatim>\<open>shared/src/types/farcaster.ts\<close>.  An optional field is an \<open>option\<close>.
  Numbers are integers.  A timestamp that is not a number is \<open>None\<close>; the post carries the
  instant in milliseconds that the source formats with \<^verbatim>\<open>toISOString\<close>.  Field names follow
  the source, with a prefix where two records share a name.
\<close>

definition FARCASTER_EPOCH :: int where
  "FARCASTER_EPOCH = 1609459200000"

record embed =
  embed_type :: string
  embed_url :: string

record cast_add_body =
  body_text :: string
  parentCastId :: "(int \<times> string) option"
  body_attachments :: "embed list option"
  body_embeds :: "embed list option"
  embedsDeprecated :: "embed list option"

datatype user_data_type = TypeName string | TypeNumber int

record SnapchainMessage =
  msg_hash :: string
  msg_timestamp :: "int option"
  userDataBody :: "(user_data_type \<times> string) option"
  castAddBody :: "cast_add_body option"

record FarcasterUser =
  fid :: int
  username :: string
  displayName :: string
  bio :: string
  pfp :: string
  url :: string
  location :: string
  twitter :: string
  github :: string

record FarcasterCast =
  hash :: string
  threadHash :: string
  parentHash :: "string option"
  author_fid :: int
  author_username :: string
  cast_text :: string
  cast_timestamp :: int
  attachments :: "embed list"
  embeds :: "embed list"
  likes :: nat
  recasts :: nat

record FarcasterResponse =
  user :: FarcasterUser
  casts :: "FarcasterCast list"

datatype sort_order = newest | oldest

record FarcasterQueryParams =
  query_fid :: "int option"
  query_username :: "string option"
  limit :: "int option"
  includeReplies :: "bool option"
  includeReactions :: "bool option"
  includeParents :: "bool option"
  all :: "bool option"
  sortOrder :: "sort_order option"

datatype fid_or_username = Fid int | Username string

text \<open>
  What the hub answers.  The answer to a \<^verbatim>\<open>castsByFid\<close> request is a failed fetch (the
  message of the error thrown by \<^verbatim>\<open>fetchWithTimeout\<close>), a page without a next-page token, or
  a page with a token together with the answer to the request that sends this token:
  the pagination the hub offers is finite.  The first answer depends on the identity, on
  \<^verbatim>\<open>reverse\<close> and on \<^verbatim>\<open>pageSize\<close> as the request sends them.

  The record also carries \<^verbatim>\<open>String.prototype.toLowerCase\<close>, by which the server normalises
  a handle before it asks the hub: the method follows the Unicode case mapping, the strings
  of the model are lists of 8-bit characters, and so the mapping is taken as it is given
  rather than computed.
\<close>

datatype feed =
    Failure string
  | LastPage "SnapchainMessage list"
  | MorePage "SnapchainMessage list" string feed

record hub =
  userNameProofByName :: "string \<Rightarrow> string + int"
  userDataByFid :: "int \<Rightarrow> string + SnapchainMessage list option"
  castsByFid :: "int \<Rightarrow> bool \<Rightarrow> int \<Rightarrow> feed"
  hub_toLowerCase :: "string \<Rightarrow> string"

text \<open>JavaScript truthiness of a string and of an optional string; \<^verbatim>\<open>xs || []\<close>.\<close>

definition truthy :: "string \<Rightarrow> bool" where
  "truthy s = (s \<noteq> [])"

definition truthy_opt :: "string option \<Rightarrow> bool" where
  "truthy_opt s = (case s of None \<Rightarrow> False | Some v \<Rightarrow> truthy v)"

definition or_empty :: "'a list option \<Rightarrow> 'a list" where
  "or_empty xs = (case xs of None \<Rightarrow> [] | Some v \<Rightarrow> v)"

text \<open>
  The instant of a message in milliseconds, as both servers compute it, and the range of
  instants a \<^verbatim>\<open>Date\<close> can hold: outside it the date is invalid and \<^verbatim>\<open>toISOString\<close> throws a
  \<^verbatim>\<open>RangeError\<close> (whose message, here the one of V8, depends on the engine).
\<close>

definition instant :: "SnapchainMessage \<Rightarrow> int" where
  "instant message =
     (case msg_timestamp message of
        Some t \<Rightarrow> FARCASTER_EPOCH + t * 1000
      | None \<Rightarrow> 0)"

definition MAX_TIME_VALUE :: int where
  "MAX_TIME_VALUE = 8640000000000000"

definition toISOString_returns :: "int \<Rightarrow> bool" where
  "toISOString_returns t = (- MAX_TIME_VALUE \<le> t \<and> t \<le> MAX_TIME_VALUE)"

definition invalid_time_value :: string where
  "invalid_time_value = ''Invalid time value''"

text \<open>The \<^verbatim>\<open>switch\<close> on the type tag of a profile record, and the \<^verbatim>\<open>forEach\<close> around it.\<close>

definition apply_user_data :: "FarcasterUser \<Rightarrow> user_data_type \<times> string \<Rightarrow> FarcasterUser" where
  "apply_user_data u body =
     (let type = fst body; v = snd body in
      if type = TypeName ''USER_DATA_TYPE_PFP'' \<or> type = TypeNumber 1 then u\<lparr>pfp := v\<rparr>
      else if type = TypeName ''USER_DATA_TYPE_DISPLAY'' \<or> type = TypeNumber 2 then u\<lparr>displayName := v\<rparr>
      else if type = TypeName ''USER_DATA_TYPE_BIO'' \<or> type = TypeNumber 3 then u\<lparr>bio := v\<rparr>
      else if type = TypeName ''USER_DATA_TYPE_URL'' \<or> type = TypeNumber 5 then u\<lparr>url := v\<rparr>
      else if type = TypeName ''USER_DATA_TYPE_USERNAME'' \<or> type = TypeNumber 6 then u\<lparr>username := v\<rparr>
      else if type = TypeName ''USER_DATA_TYPE_LOCATION'' \<or> type = TypeNumber 7 then u\<lparr>location := v\<rparr>
      else if type = TypeName ''USER_DATA_TYPE_TWITTER'' \<or> type = TypeNumber 8 then u\<lparr>twitter := v\<rparr>
      else if type = TypeName ''USER_DATA_TYPE_GITHUB'' \<or> type = TypeNumber 9 then u\<lparr>github := v\<rparr>
      else u)"

fun process_user_messages :: "FarcasterUser \<Rightarrow> SnapchainMessage list \<Rightarrow> FarcasterUser" where
  "process_user_messages u [] = u"
| "process_user_messages u (m # ms) =
     (case userDataBody m of
        None \<Rightarrow> process_user_messages u ms
      | Some body \<Rightarrow> process_user_messages (apply_user_data u body) ms)"


section \<open>Aggregation: fetchUserData of server/src/index.ts\<close>

text \<open>
  \<^verbatim>\<open>resolveFid\<close>: \<^verbatim>\<open>fetchWithTimeout\<close> of this file throws on a response that is not ok, so
  the branch for \<^verbatim>\<open>!response.ok\<close> is never taken; a missing \<^verbatim>\<open>fid\<close> is the value 0.
\<close>

definition resolveFid :: "hub \<Rightarrow> string \<Rightarrow> string + int" where
  "resolveFid h name =
     (if \<not> truthy name then Inl ''Username is required''
      else (let normalizedUsername = hub_toLowerCase h name in
            case userNameProofByName h normalizedUsername of
              Inl error \<Rightarrow> Inl error
            | Inr f \<Rightarrow>
                if f \<le> 0 then Inl (''Invalid FID returned for username: '' @ name)
                else Inr f))"

text \<open>
  The post built in the loop body of \<^verbatim>\<open>fetchUserData\<close>, for a message whose instant
  \<^verbatim>\<open>toISOString\<close> can format; the loop below has the other case, in which the object
  literal throws.
\<close>

definition index_cast :: "FarcasterUser \<Rightarrow> SnapchainMessage \<Rightarrow> cast_add_body \<Rightarrow> FarcasterCast" where
  "index_cast u message body =
     \<lparr>hash = take 8 (body_text body),
      threadHash = (case parentCastId body of None \<Rightarrow> [] | Some parent \<Rightarrow> snd parent),
      parentHash = map_option snd (parentCastId body),
      author_fid = fid u,
      author_username = username u,
      cast_text = body_text body,
      cast_timestamp = (case msg_timestamp message of
                          Some t \<Rightarrow> FARCASTER_EPOCH + t * 1000
                        | None \<Rightarrow> 0),
      attachments = or_empty (body_attachments body),
      embeds = or_empty (body_embeds body) @ or_empty (embedsDeprecated body),
      likes = 0,
      recasts = 0\<rparr>"

text \<open>
  The \<^verbatim>\<open>for\<close> loop over the messages of one page, on the two arrays \<^verbatim>\<open>allCasts\<close> and
  \<^verbatim>\<open>nonReplyCasts\<close>, and the \<^verbatim>\<open>do \<dots> while (pageToken)\<close> loop around it with its
  \<^verbatim>\<open>break\<close>s.  A \<^verbatim>\<open>RangeError\<close> of \<^verbatim>\<open>toISOString\<close> leaves both loops and, rethrown by the
  \<^verbatim>\<open>catch\<close>, is the outcome of \<^verbatim>\<open>fetchUserData\<close>.
\<close>

fun process_casts ::
  "bool \<Rightarrow> FarcasterUser \<Rightarrow> SnapchainMessage list \<Rightarrow> FarcasterCast list \<times> FarcasterCast list
     \<Rightarrow> string + FarcasterCast list \<times> FarcasterCast list"
where
  "process_casts incl u [] acc = Inr acc"
| "process_casts incl u (message # rest) (allCasts, nonReplyCasts) =
     (case castAddBody message of
        None \<Rightarrow> process_casts incl u rest (allCasts, nonReplyCasts)
      | Some body \<Rightarrow>
          if \<not> toISOString_returns (instant message) then Inl invalid_time_value
          else (let cast = index_cast u message body in
                process_casts incl u rest
                  (allCasts @ [cast],
                   if \<not> incl \<and> \<not> truthy_opt (parentHash cast) then nonReplyCasts @ [cast]
                   else nonReplyCasts)))"

fun paginate ::
  "bool \<Rightarrow> bool \<Rightarrow> int \<Rightarrow> FarcasterUser \<Rightarrow> feed \<Rightarrow> FarcasterCast list \<times> FarcasterCast list
     \<Rightarrow> string + FarcasterCast list \<times> FarcasterCast list"
where
  "paginate al incl targetLimit u (Failure message) acc = Inl message"
| "paginate al incl targetLimit u (LastPage messages) acc = process_casts incl u messages acc"
| "paginate al incl targetLimit u (MorePage messages pageToken next) acc =
     (case process_casts incl u messages acc of
        Inl error \<Rightarrow> Inl error
      | Inr acc' \<Rightarrow>
          if \<not> al \<and> (incl \<and> int (length (fst acc')) \<ge> targetLimit
                        \<or> \<not> incl \<and> int (length (snd acc')) \<ge> targetLimit)
          then Inr acc'
          else if truthy pageToken then paginate al incl targetLimit u next acc'
          else Inr acc')"

definition resolve_identity :: "hub \<Rightarrow> fid_or_username \<Rightarrow> string + int" where
  "resolve_identity h fidOrUsername =
     (case fidOrUsername of
        Fid n \<Rightarrow> if n \<le> 0 then Inl ''Invalid FID provided'' else Inr n
      | Username name \<Rightarrow>
          (let sanitizedUsername =
                 hub_toLowerCase h (if prefix ''@'' name then drop 1 name else name) in
           case resolveFid h sanitizedUsername of
             Inl error \<Rightarrow> Inl (''Failed to resolve username: '' @ error)
           | Inr f \<Rightarrow> Inr f))"

definition build_user :: "fid_or_username \<Rightarrow> int \<Rightarrow> SnapchainMessage list \<Rightarrow> FarcasterUser" where
  "build_user fidOrUsername f messages =
     (let u0 = \<lparr>fid = f,
                username = (case fidOrUsername of Username name \<Rightarrow> name | Fid n \<Rightarrow> []),
                displayName = [], bio = [], pfp = [], url = [],
                location = [], twitter = [], github = []\<rparr>;
          u1 = process_user_messages u0 messages
      in if \<not> truthy (username u1)
         then u1\<lparr>username := (case fidOrUsername of
                                  Username name \<Rightarrow> name
                                | Fid n \<Rightarrow> ''user_'' @ decimal (nat f))\<rparr>
         else u1)"

definition fetchUserData :: "hub \<Rightarrow> fid_or_username \<Rightarrow> FarcasterQueryParams \<Rightarrow> string + FarcasterResponse" where
  "fetchUserData h fidOrUsername params =
     (case resolve_identity h fidOrUsername of
        Inl error \<Rightarrow> Inl error
      | Inr f \<Rightarrow>
          (let reverse = (sortOrder params \<noteq> Some oldest);
               al = (all params = Some True);
               targetLimit = (if al then 1000
                              else case limit params of
                                     None \<Rightarrow> 10
                                   | Some n \<Rightarrow> if n = 0 then 10 else n);
               incl = (includeReplies params = Some True);
               pageSize = (if al then 1000
                           else if incl then targetLimit
                           else min 1000 (max (targetLimit * 2) 20))
           in case userDataByFid h f of
                Inl error \<Rightarrow> Inl error
              | Inr None \<Rightarrow> Inl ''Invalid user data response format: messages array missing''
              | Inr (Some messages) \<Rightarrow>
                  (let u = build_user fidOrUsername f messages in
                   case paginate al incl targetLimit u (castsByFid h f reverse pageSize) ([], []) of
                     Inl error \<Rightarrow> Inl error
                   | Inr (allCasts, nonReplyCasts) \<Rightarrow>
                       (let finalCasts = (if incl then allCasts else nonReplyCasts) in
                        case (if al then None else limit params) of
                          None \<Rightarrow> Inr \<lparr>user = u, casts = finalCasts\<rparr>
                        | Some n \<Rightarrow>
                            if n = 0 then Inr \<lparr>user = u, casts = finalCasts\<rparr>
                            else Inr \<lparr>user = u,
                                      casts = take (nat (max 1 (min n 1000))) finalCasts\<rparr>))))"

text \<open>
  Fixtures for the examples: \<^verbatim>\<open>toLowerCase\<close> on a string of ASCII characters, and a hub that
  answers every \<^verbatim>\<open>castsByFid\<close> request with the feed \<open>f\<close>.
\<close>

definition toLowerCase_ascii :: "string \<Rightarrow> string" where
  "toLowerCase_ascii s =
     map (\<lambda>c. if 65 \<le> (of_char c :: nat) \<and> (of_char c :: nat) \<le> 90
               then char_of ((of_char c :: nat) + 32) else c) s"

definition example_hub :: "feed \<Rightarrow> hub" where
  "example_hub f = \<lparr>userNameProofByName = (\<lambda>name. Inr 5650),
                    userDataByFid = (\<lambda>n. Inr (Some [])),
                    castsByFid = (\<lambda>n reverse pageSize. f),
                    hub_toLowerCase = toLowerCase_ascii\<rparr>"

definition example_params :: "int \<Rightarrow> FarcasterQueryParams" where
  "example_params n = \<lparr>query_fid = Some 5650, query_username = None, limit = Some n, includeReplies = Some False, includeReactions = None,
      includeParents = None, all = Some False, sortOrder = Some newest\<rparr>"


text \<open>
  For the statements.  Of a feed: every message in the order of arrival, following the
  page tokens while they are truthy, and whether no request along it fails.  Of a message
  that carries a post: whether \<^verbatim>\<open>toISOString\<close> can format its instant, and whether its parent
  reference, if it has one, names the parent by a hash that is not empty.  \<open>translate_all\<close>
  is the posts of the messages that carry one.  A post is top-level when it has no parent
  reference.  The requested order is newest first when \<^verbatim>\<open>reverse\<close> is true and oldest first
  otherwise.
\<close>

fun feed_messages :: "feed \<Rightarrow> SnapchainMessage list" where
  "feed_messages (Failure message) = []"
| "feed_messages (LastPage messages) = messages"
| "feed_messages (MorePage messages pageToken next) =
     messages @ (if truthy pageToken then feed_messages next else [])"

fun feed_complete :: "feed \<Rightarrow> bool" where
  "feed_complete (Failure message) = False"
| "feed_complete (LastPage messages) = True"
| "feed_complete (MorePage messages pageToken next) =
     (if truthy pageToken then feed_complete next else True)"

definition datable :: "SnapchainMessage \<Rightarrow> bool" where
  "datable m = (castAddBody m = None \<or> toISOString_returns (instant m))"

definition parent_named :: "SnapchainMessage \<Rightarrow> bool" where
  "parent_named m =
     (case castAddBody m of
        None \<Rightarrow> True
      | Some body \<Rightarrow> (case parentCastId body of None \<Rightarrow> True | Some parent \<Rightarrow> truthy (snd parent)))"

definition translate_all :: "FarcasterUser \<Rightarrow> SnapchainMessage list \<Rightarrow> FarcasterCast list" where
  "translate_all u messages =
     List.map_filter (\<lambda>m. map_option (index_cast u m) (castAddBody m)) messages"

definition top_level :: "FarcasterCast \<Rightarrow> bool" where
  "top_level c = (parentHash c = None)"

definition available_top_level :: "FarcasterUser \<Rightarrow> feed \<Rightarrow> FarcasterCast list" where
  "available_top_level u f = filter top_level (translate_all u (feed_messages f))"

definition in_requested_order :: "bool \<Rightarrow> FarcasterCast list \<Rightarrow> bool" where
  "in_requested_order reverse cs =
     (if reverse then sorted_wrt (\<lambda>a b. cast_timestamp a \<ge> cast_timestamp b) cs
      else sorted_wrt (\<lambda>a b. cast_timestamp a \<le> cast_timestamp b) cs)"

text \<open>
  The pages the loop asks for, for a limit \<open>L\<close> and \<open>n\<close> top-level posts collected before:
  the first page, and the next one while fewer than \<open>L\<close> top-level posts have been
  collected and the page came with a truthy token.
\<close>

fun fetched_pages :: "int \<Rightarrow> FarcasterUser \<Rightarrow> feed \<Rightarrow> nat \<Rightarrow> SnapchainMessage list list" where
  "fetched_pages L u (Failure message) n = []"
| "fetched_pages L u (LastPage messages) n = [messages]"
| "fetched_pages L u (MorePage messages pageToken next) n =
     messages #
     (if L \<le> int (n + length (filter top_level (translate_all u messages))) \<or> \<not> truthy pageToken
      then []
      else fetched_pages L u next (n + length (filter top_level (translate_all u messages))))"

section \<open>Properties of fetchUserData\<close>

lemma translate_all_simps [simp]:
  "translate_all u [] = []"
  "castAddBody m = None \<Longrightarrow> translate_all u (m # ms) = translate_all u ms"
  "castAddBody m = Some body \<Longrightarrow> translate_all u (m # ms) = index_cast u m body # translate_all u ms"
  by (simp_all add: translate_all_def List.map_filter_simps)

lemma translate_all_append [simp]:
  "translate_all u (xs @ ys) = translate_all u xs @ translate_all u ys"
  by (simp add: translate_all_def List.map_filter_def)

lemma parentHash_index_cast [simp]:
  "parentHash (index_cast u m body) = map_option snd (parentCastId body)"
  by (simp add: index_cast_def)

lemma cast_timestamp_index_cast [simp]:
  "cast_timestamp (index_cast u m body) = instant m"
  by (simp add: index_cast_def instant_def)

text \<open>
  On messages whose posts can be dated the inner loop does not throw, and on messages whose
  parent references name the parent its test \<^verbatim>\<open>!cast.parentHash\<close> keeps the top-level posts.
\<close>

lemma process_casts_eq:
  assumes "list_all datable messages" and "list_all parent_named messages"
  shows "process_casts incl u messages (a, n)
     = Inr (a @ translate_all u messages,
            n @ (if incl then [] else filter top_level (translate_all u messages)))"
  using assms
proof (induction messages arbitrary: a n)
  case Nil
  then show ?case by simp
next
  case (Cons m ms)
  have tl: "list_all datable ms" "list_all parent_named ms"
    using Cons.prems by simp_all
  show ?case
  proof (cases "castAddBody m")
    case None
    then show ?thesis using Cons.IH[OF tl] by simp
  next
    case (Some body)
    have ok: "toISOString_returns (instant m)"
      using Cons.prems(1) Some by (simp add: datable_def)
    have test: "(\<not> truthy_opt (parentHash (index_cast u m body))) = top_level (index_cast u m body)"
      using Cons.prems(2) Some
      by (cases "parentCastId body") (simp_all add: parent_named_def top_level_def truthy_opt_def)
    show ?thesis
      using Some ok test Cons.IH[OF tl] by (simp add: Let_def)
  qed
qed

lemma paginate_pages:
  assumes "feed_complete f"
    and "list_all datable (feed_messages f)" and "list_all parent_named (feed_messages f)"
  shows "paginate False False L u f (a, n)
     = Inr (a @ translate_all u (concat (fetched_pages L u f (length n))),
            n @ filter top_level (translate_all u (concat (fetched_pages L u f (length n)))))"
  using assms
proof (induction f arbitrary: a n)
  case (Failure message)
  then show ?case by simp
next
  case (LastPage messages)
  then show ?case by (simp add: process_casts_eq)
next
  case (MorePage messages pageToken following)
  let ?P = "filter top_level (translate_all u messages)"
  let ?acc = "(a @ translate_all u messages, n @ ?P)"
  have here: "list_all datable messages" "list_all parent_named messages"
    using MorePage.prems by simp_all
  have pc: "process_casts False u messages (a, n) = Inr ?acc"
    using here by (simp add: process_casts_eq)
  show ?case
  proof (cases "L \<le> int (length n + length ?P) \<or> \<not> truthy pageToken")
    case True
    then show ?thesis by (auto simp: pc)
  next
    case False
    then have tok: "truthy pageToken" and few: "\<not> L \<le> int (length n + length ?P)"
      by simp_all
    have rest: "feed_complete following" "list_all datable (feed_messages following)"
      "list_all parent_named (feed_messages following)"
      using MorePage.prems tok by simp_all
    have "paginate False False L u (MorePage messages pageToken following) (a, n)
            = paginate False False L u following ?acc"
      using tok few by (simp add: pc)
    also have "\<dots> = Inr ((a @ translate_all u messages)
                           @ translate_all u (concat (fetched_pages L u following (length (n @ ?P)))),
                         (n @ ?P) @ filter top_level
                            (translate_all u (concat (fetched_pages L u following (length (n @ ?P))))))"
      by (rule MorePage.IH[OF rest])
    finally show ?thesis
      using tok few by simp
  qed
qed

lemma fetched_pages_prefix:
  "prefix (filter top_level (translate_all u (concat (fetched_pages L u f k))))
          (available_top_level u f)"
proof (induction f arbitrary: k)
  case (Failure message)
  then show ?case by simp
next
  case (LastPage messages)
  then show ?case by (simp add: available_top_level_def)
next
  case (MorePage messages pageToken following)
  let ?n = "k + length (filter top_level (translate_all u messages))"
  show ?case
  proof (cases "L \<le> int ?n \<or> \<not> truthy pageToken")
    case True
    then show ?thesis by (auto simp: available_top_level_def)
  next
    case False
    with MorePage.IH[of ?n] show ?thesis
      by (simp add: available_top_level_def)
  qed
qed

lemma fetched_pages_enough:
  assumes "feed_complete f"
  shows "filter top_level (translate_all u (concat (fetched_pages L u f k))) = available_top_level u f \<or>
         L \<le> int (k + length (filter top_level (translate_all u (concat (fetched_pages L u f k)))))"
  using assms
proof (induction f arbitrary: k)
  case (Failure message)
  then show ?case by simp
next
  case (LastPage messages)
  then show ?case by (simp add: available_top_level_def)
next
  case (MorePage messages pageToken following)
  let ?n = "k + length (filter top_level (translate_all u messages))"
  show ?case
  proof (cases "L \<le> int ?n")
    case True
    then show ?thesis by simp
  next
    case few: False
    show ?thesis
    proof (cases "truthy pageToken")
      case False
      then show ?thesis by (simp add: available_top_level_def)
    next
      case True
      then have "feed_complete following" using MorePage.prems by simp
      from MorePage.IH[OF this, of ?n] few True show ?thesis
        by (auto simp: available_top_level_def)
    qed
  qed
qed

lemma take_prefix_enough:
  assumes "prefix X Y" and "X = Y \<or> k \<le> length X"
  shows "take k X = take k Y"
proof -
  from assms(1) obtain Z where "Y = X @ Z" by (auto simp: prefix_def)
  with assms(2) show ?thesis by auto
qed

lemma in_requested_order_kept:
  assumes "in_requested_order reverse cs"
  shows "in_requested_order reverse (take k (filter P cs))"
  using assms
  by (auto simp: in_requested_order_def intro!: sorted_wrt_take sorted_wrt_filter split: if_splits)


text \<open>Upstream fixtures for the examples.\<close>

definition post_body :: "(int \<times> string) option \<Rightarrow> cast_add_body" where
  "post_body parent = \<lparr>body_text = ''gm'', parentCastId = parent, body_attachments = None,
                        body_embeds = None, embedsDeprecated = None\<rparr>"

definition post_at :: "int \<Rightarrow> (int \<times> string) option \<Rightarrow> SnapchainMessage" where
  "post_at t parent = \<lparr>msg_hash = ''0xaa'', msg_timestamp = Some t, userDataBody = None,
                        castAddBody = Some (post_body parent)\<rparr>"

definition ten_posts :: feed where
  "ten_posts =
     MorePage [post_at 9 None, post_at 8 (Some (2, ''0xcc'')), post_at 7 None,
               post_at 6 (Some (2, ''0xcc''))] ''page2''
    (MorePage [post_at 5 None, post_at 4 None, post_at 3 (Some (2, ''0xcc''))] ''page3''
    (LastPage [post_at 2 None, post_at 1 None, post_at 0 None]))"

definition example_user :: FarcasterUser where
  "example_user = build_user (Fid 5650) 5650 []"

lemma translate_all_replicate:
  "castAddBody m = Some body \<Longrightarrow> translate_all u (replicate n m) = replicate n (index_cast u m body)"
  by (induction n) simp_all

lemma fetchUserData_top_level:
  assumes "resolve_identity h who = Inr f"
    and "userDataByFid h f = Inr (Some messages)"
    and "all params \<noteq> Some True" and "includeReplies params \<noteq> Some True"
    and "limit params = Some L" and "0 < L"
    and "paginate False False L (build_user who f messages)
           (castsByFid h f (sortOrder params \<noteq> Some oldest) (min 1000 (max (L * 2) 20))) ([], [])
         = Inr (A, X)"
  shows "fetchUserData h who params
           = Inr \<lparr>user = build_user who f messages, casts = take (nat (min L 1000)) X\<rparr>"
proof -
  have m: "max 1 (min L 1000) = min L 1000"
    using assms(6) by simp
  show ?thesis
    using assms m
    by (simp add: fetchUserData_def Let_def del: paginate.simps)
qed

text \<open>
  Claim C6, as the code has it.  For a request whose identity resolves and whose profile
  fetch succeeds, with \<^verbatim>\<open>all\<close> and \<^verbatim>\<open>includeReplies\<close> not true and a positive limit \<open>L\<close>, on
  an upstream whose pagination ends and never fails, whose posts all have an instant that
  \<^verbatim>\<open>toISOString\<close> can format, and whose parent references all name the parent by a hash that
  is not empty:

  \<^item> the request succeeds;
  \<^item> the pagination loop ends holding every post of every page it fetched, and every
    top-level post among them: nothing is cut while the pages are read;
  \<^item> the posts returned are the first \<open>min L 1000\<close> of the top-level posts the loop holds
    (the \<^verbatim>\<open>slice\<close> after the loop), which are the first \<open>min L 1000\<close> of all the top-level
    posts upstream;
  \<^item> none of them has a parent reference, and their number is the minimum of \<open>min L 1000\<close>
    and the number of top-level posts upstream;
  \<^item> they are in the order the upstream returned them, so in the requested order (newest
    first unless \<^verbatim>\<open>sortOrder = "oldest"\<close>) if the upstream returned its posts in that order.
\<close>

theorem top_level_posts_up_to_limit:
  assumes "resolve_identity h who = Inr f"
    and "userDataByFid h f = Inr (Some messages)"
    and "all params \<noteq> Some True" and "includeReplies params \<noteq> Some True"
    and "limit params = Some L" and "0 < L"
    and "feed_complete (castsByFid h f (sortOrder params \<noteq> Some oldest) (min 1000 (max (L * 2) 20)))"
    and "list_all datable
           (feed_messages (castsByFid h f (sortOrder params \<noteq> Some oldest) (min 1000 (max (L * 2) 20))))"
    and "list_all parent_named
           (feed_messages (castsByFid h f (sortOrder params \<noteq> Some oldest) (min 1000 (max (L * 2) 20))))"
  shows "\<exists>r. fetchUserData h who params = Inr r \<and>
           user r = build_user who f messages \<and>
           paginate False False L (build_user who f messages)
               (castsByFid h f (sortOrder params \<noteq> Some oldest) (min 1000 (max (L * 2) 20))) ([], [])
             = Inr (translate_all (build_user who f messages)
                      (concat (fetched_pages L (build_user who f messages)
                         (castsByFid h f (sortOrder params \<noteq> Some oldest)
                            (min 1000 (max (L * 2) 20))) 0)),
                    filter top_level
                      (translate_all (build_user who f messages)
                         (concat (fetched_pages L (build_user who f messages)
                            (castsByFid h f (sortOrder params \<noteq> Some oldest)
                               (min 1000 (max (L * 2) 20))) 0)))) \<and>
           casts r = take (nat (min L 1000))
                       (filter top_level
                          (translate_all (build_user who f messages)
                             (concat (fetched_pages L (build_user who f messages)
                                (castsByFid h f (sortOrder params \<noteq> Some oldest)
                                   (min 1000 (max (L * 2) 20))) 0)))) \<and>
           casts r = take (nat (min L 1000))
                       (available_top_level (build_user who f messages)
                          (castsByFid h f (sortOrder params \<noteq> Some oldest)
                             (min 1000 (max (L * 2) 20)))) \<and>
           (\<forall>c \<in> set (casts r). parentHash c = None) \<and>
           length (casts r)
             = min (nat (min L 1000))
                   (length (available_top_level (build_user who f messages)
                      (castsByFid h f (sortOrder params \<noteq> Some oldest)
                         (min 1000 (max (L * 2) 20))))) \<and>
           (in_requested_order (sortOrder params \<noteq> Some oldest)
              (translate_all (build_user who f messages)
                 (feed_messages (castsByFid h f (sortOrder params \<noteq> Some oldest)
                    (min 1000 (max (L * 2) 20)))))
            \<longrightarrow> in_requested_order (sortOrder params \<noteq> Some oldest) (casts r))"
proof -
  let ?u = "build_user who f messages"
  let ?feed = "castsByFid h f (sortOrder params \<noteq> Some oldest) (min 1000 (max (L * 2) 20))"
  let ?held = "filter top_level (translate_all ?u (concat (fetched_pages L ?u ?feed 0)))"
  let ?avail = "available_top_level ?u ?feed"
  let ?r = "\<lparr>user = ?u, casts = take (nat (min L 1000)) ?held\<rparr>"
  have pg: "paginate False False L ?u ?feed ([], [])
              = Inr (translate_all ?u (concat (fetched_pages L ?u ?feed 0)), ?held)"
    using paginate_pages[OF assms(7,8,9), of L ?u "[]" "[]"] by simp
  have r: "fetchUserData h who params = Inr ?r"
    using assms(1-6) pg by (rule fetchUserData_top_level)
  have pre: "prefix ?held ?avail"
    by (rule fetched_pages_prefix)
  have "?held = ?avail \<or> L \<le> int (0 + length ?held)"
    using assms(7) by (rule fetched_pages_enough)
  then have k: "?held = ?avail \<or> nat (min L 1000) \<le> length ?held"
    by auto
  have tk: "take (nat (min L 1000)) ?held = take (nat (min L 1000)) ?avail"
    using pre k by (rule take_prefix_enough)
  have "\<forall>c \<in> set ?held. parentHash c = None"
    by (simp add: top_level_def)
  then have tl: "\<forall>c \<in> set (casts ?r). parentHash c = None"
    by (auto dest: in_set_takeD)
  have len: "length (casts ?r) = min (nat (min L 1000)) (length ?avail)"
    by (simp add: tk min.commute)
  have ord: "in_requested_order (sortOrder params \<noteq> Some oldest)
               (translate_all ?u (feed_messages ?feed))
             \<longrightarrow> in_requested_order (sortOrder params \<noteq> Some oldest) (casts ?r)"
    by (simp add: tk available_top_level_def in_requested_order_kept)
  show ?thesis
  proof (intro exI[of _ ?r] conjI)
    show "fetchUserData h who params = Inr ?r" by (rule r)
    show "user ?r = ?u" by simp
    show "paginate False False L ?u ?feed ([], [])
            = Inr (translate_all ?u (concat (fetched_pages L ?u ?feed 0)), ?held)" by (rule pg)
    show "casts ?r = take (nat (min L 1000)) ?held" by simp
    show "casts ?r = take (nat (min L 1000)) ?avail" by (simp add: tk)
    show "\<forall>c \<in> set (casts ?r). parentHash c = None" by (rule tl)
    show "length (casts ?r) = min (nat (min L 1000)) (length ?avail)" by (rule len)
    show "in_requested_order (sortOrder params \<noteq> Some oldest)
               (translate_all ?u (feed_messages ?feed))
             \<longrightarrow> in_requested_order (sortOrder params \<noteq> Some oldest) (casts ?r)" by (rule ord)
  qed
qed

text \<open>
  The example of the specification: seven top-level posts and three replies on three
  pages, newest first, and a limit of five.  The loop reads the three pages and holds the
  seven top-level posts; the five newest are returned.
\<close>

lemma ten_posts_held:
  "map cast_timestamp
     (filter top_level (translate_all example_user (concat (fetched_pages 5 example_user ten_posts 0))))
     = [FARCASTER_EPOCH + 9000, FARCASTER_EPOCH + 7000, FARCASTER_EPOCH + 5000,
        FARCASTER_EPOCH + 4000, FARCASTER_EPOCH + 2000, FARCASTER_EPOCH + 1000, FARCASTER_EPOCH]"
  by (simp add: ten_posts_def post_at_def post_body_def truthy_def top_level_def instant_def)

theorem top_level_posts_up_to_limit_witness:
  "map_sum id (map cast_timestamp \<circ> casts) (fetchUserData (example_hub ten_posts) (Fid 5650) (example_params 5))
     = Inr [FARCASTER_EPOCH + 9000, FARCASTER_EPOCH + 7000, FARCASTER_EPOCH + 5000,
            FARCASTER_EPOCH + 4000, FARCASTER_EPOCH + 2000] \<and>
   map_sum id (map cast_timestamp \<circ> snd) (paginate False False 5 example_user ten_posts ([], []))
     = Inr [FARCASTER_EPOCH + 9000, FARCASTER_EPOCH + 7000, FARCASTER_EPOCH + 5000,
            FARCASTER_EPOCH + 4000, FARCASTER_EPOCH + 2000, FARCASTER_EPOCH + 1000, FARCASTER_EPOCH]"
proof -
  have 1: "resolve_identity (example_hub ten_posts) (Fid 5650) = Inr 5650"
    by (simp add: resolve_identity_def)
  have 2: "userDataByFid (example_hub ten_posts) 5650 = Inr (Some [])"
    by (simp add: example_hub_def)
  have f: "castsByFid (example_hub ten_posts) 5650
             (sortOrder (example_params 5) \<noteq> Some oldest) (min 1000 (max (5 * 2) 20)) = ten_posts"
    by (simp add: example_hub_def)
  have 7: "feed_complete (castsByFid (example_hub ten_posts) 5650
             (sortOrder (example_params 5) \<noteq> Some oldest) (min 1000 (max (5 * 2) 20)))"
    unfolding f by (simp add: ten_posts_def truthy_def)
  have 8: "list_all datable (feed_messages (castsByFid (example_hub ten_posts) 5650
             (sortOrder (example_params 5) \<noteq> Some oldest) (min 1000 (max (5 * 2) 20))))"
    unfolding f
    by (simp add: ten_posts_def truthy_def datable_def toISOString_returns_def instant_def
          post_at_def FARCASTER_EPOCH_def MAX_TIME_VALUE_def)
  have 9: "list_all parent_named (feed_messages (castsByFid (example_hub ten_posts) 5650
             (sortOrder (example_params 5) \<noteq> Some oldest) (min 1000 (max (5 * 2) 20))))"
    unfolding f
    by (simp add: ten_posts_def truthy_def parent_named_def post_at_def post_body_def)
  from top_level_posts_up_to_limit [OF 1 2 _ _ _ _ 7 8 9]
  obtain r where r: "fetchUserData (example_hub ten_posts) (Fid 5650) (example_params 5) = Inr r"
    "paginate False False 5 (build_user (Fid 5650) 5650 []) ten_posts ([], [])
       = Inr (translate_all (build_user (Fid 5650) 5650 [])
                (concat (fetched_pages 5 (build_user (Fid 5650) 5650 []) ten_posts 0)),
              filter top_level (translate_all (build_user (Fid 5650) 5650 [])
                (concat (fetched_pages 5 (build_user (Fid 5650) 5650 []) ten_posts 0))))"
    "casts r = take (nat (min 5 1000))
       (filter top_level (translate_all (build_user (Fid 5650) 5650 [])
          (concat (fetched_pages 5 (build_user (Fid 5650) 5650 []) ten_posts 0))))"
    unfolding f by (auto simp: example_params_def)
  have a: "map cast_timestamp (casts r)
          = take 5 (map cast_timestamp
              (filter top_level (translate_all example_user
                 (concat (fetched_pages 5 example_user ten_posts 0)))))"
    using r(3) by (simp add: take_map example_user_def)
  have b: "map_sum id (map cast_timestamp \<circ> snd) (paginate False False 5 example_user ten_posts ([], []))
     = Inr (map cast_timestamp
              (filter top_level (translate_all example_user
                 (concat (fetched_pages 5 example_user ten_posts 0)))))"
    using r(2) by (simp add: example_user_def del: paginate.simps)
  show ?thesis
    using r(1) a b by (simp add: ten_posts_held del: paginate.simps)
qed

text \<open>
  Claim C6 as stated fails in these places.  A limit above 1000 is cut to 1000: with 1001
  top-level posts upstream (a page of 1000 and a page of one) and \<open>L = 1001\<close> the list has
  1000 posts.  The loop does not sort: when the upstream answers a request for the newest
  first with an older post before a newer one, the list has them in that order.  A post
  whose instant is beyond the range of a \<^verbatim>\<open>Date\<close> makes the whole request fail.  And the
  loop tests the parent hash for truthiness: a message whose \<^verbatim>\<open>parentCastId\<close> carries an
  empty hash is kept, and the post returned has a parent reference.
\<close>

theorem limit_counterexample:
  "fetchUserData
     (example_hub (MorePage (replicate 1000 (post_at 9 None)) ''page2'' (LastPage [post_at 9 None])))
     (Fid 5650) (example_params 1001)
     = Inr \<lparr>user = example_user,
            casts = replicate 1000 (index_cast example_user (post_at 9 None) (post_body None))\<rparr> \<and>
   length (available_top_level example_user
      (MorePage (replicate 1000 (post_at 9 None)) ''page2'' (LastPage [post_at 9 None]))) = 1001 \<and>
   sortOrder (example_params 5) = Some newest \<and>
   map_sum id (map cast_timestamp \<circ> casts)
     (fetchUserData (example_hub (LastPage [post_at 1 None, post_at 9 None])) (Fid 5650) (example_params 5))
     = Inr [FARCASTER_EPOCH + 1000, FARCASTER_EPOCH + 9000] \<and>
   fetchUserData (example_hub (LastPage [post_at 9000000000000 None])) (Fid 5650) (example_params 5)
     = Inl ''Invalid time value'' \<and>
   fetchUserData (example_hub (LastPage [post_at 9 (Some (2, []))])) (Fid 5650) (example_params 5)
     = Inr \<lparr>user = example_user,
            casts = [index_cast example_user (post_at 9 (Some (2, []))) (post_body (Some (2, [])))]\<rparr> \<and>
   parentHash (index_cast example_user (post_at 9 (Some (2, []))) (post_body (Some (2, [])))) = Some []"
proof -
  let ?c = "index_cast example_user (post_at 9 None) (post_body None)"
  have b: "castAddBody (post_at 9 None) = Some (post_body None)"
    by (simp add: post_at_def)
  have t: "top_level ?c"
    by (simp add: top_level_def post_body_def)
  have one: "translate_all example_user [post_at 9 None] = [?c]"
    by (simp add: b)
  have a1: "length (available_top_level example_user
      (MorePage (replicate 1000 (post_at 9 None)) ''page2'' (LastPage [post_at 9 None]))) = 1001"
    using t by (simp add: available_top_level_def translate_all_replicate[OF b] one truthy_def)
  have d: "datable (post_at 9 None)" "parent_named (post_at 9 None)"
    by (simp_all add: datable_def parent_named_def post_at_def post_body_def instant_def
          toISOString_returns_def FARCASTER_EPOCH_def MAX_TIME_VALUE_def)
  have p1000: "process_casts False example_user (replicate 1000 (post_at 9 None)) ([], [])
                 = Inr (replicate 1000 ?c, replicate 1000 ?c)"
    using process_casts_eq[of "replicate 1000 (post_at 9 None)" False example_user "[]" "[]"] d t
    by (simp add: list_all_length translate_all_replicate[OF b])
  have plast: "process_casts False example_user [post_at 9 None] (replicate 1000 ?c, replicate 1000 ?c)
                 = Inr (replicate 1000 ?c @ [?c], replicate 1000 ?c @ [?c])"
    using process_casts_eq[of "[post_at 9 None]" False example_user "replicate 1000 ?c" "replicate 1000 ?c"]
      d t
    by (simp add: one)
  have p1: "paginate False False 1001 example_user
              (MorePage (replicate 1000 (post_at 9 None)) ''page2'' (LastPage [post_at 9 None])) ([], [])
     = Inr (replicate 1000 ?c @ [?c], replicate 1000 ?c @ [?c])"
    by (simp add: p1000 plast truthy_def del: process_casts.simps)
  have c1: "fetchUserData
     (example_hub (MorePage (replicate 1000 (post_at 9 None)) ''page2'' (LastPage [post_at 9 None])))
     (Fid 5650) (example_params 1001)
     = Inr \<lparr>user = example_user, casts = replicate 1000 ?c\<rparr>"
    using p1
    by (simp add: fetchUserData_def resolve_identity_def example_hub_def example_params_def
          Let_def example_user_def del: paginate.simps)
  have c3: "map_sum id (map cast_timestamp \<circ> casts)
     (fetchUserData (example_hub (LastPage [post_at 1 None, post_at 9 None])) (Fid 5650) (example_params 5))
     = Inr [FARCASTER_EPOCH + 1000, FARCASTER_EPOCH + 9000]"
    by (simp add: fetchUserData_def resolve_identity_def example_hub_def example_params_def
          Let_def post_at_def post_body_def truthy_opt_def instant_def toISOString_returns_def
          FARCASTER_EPOCH_def MAX_TIME_VALUE_def index_cast_def)
  have c4: "fetchUserData (example_hub (LastPage [post_at 9000000000000 None])) (Fid 5650) (example_params 5)
     = Inl ''Invalid time value''"
    by (simp add: fetchUserData_def resolve_identity_def example_hub_def example_params_def
          Let_def post_at_def instant_def toISOString_returns_def
          FARCASTER_EPOCH_def MAX_TIME_VALUE_def invalid_time_value_def)
  have b2: "castAddBody (post_at 9 (Some (2, []))) = Some (post_body (Some (2, [])))"
    by (simp add: post_at_def)
  have ph: "parentHash (index_cast example_user (post_at 9 (Some (2, []))) (post_body (Some (2, [])))) = Some []"
    by (simp add: post_body_def)
  have ok9: "toISOString_returns (instant (post_at 9 (Some (2, []))))"
    by (simp add: post_at_def instant_def toISOString_returns_def FARCASTER_EPOCH_def MAX_TIME_VALUE_def)
  have p2: "paginate False False 5 example_user (LastPage [post_at 9 (Some (2, []))]) ([], [])
     = Inr ([index_cast example_user (post_at 9 (Some (2, []))) (post_body (Some (2, [])))],
            [index_cast example_user (post_at 9 (Some (2, []))) (post_body (Some (2, [])))])"
    using ok9 by (simp add: b2 Let_def truthy_opt_def truthy_def post_body_def)
  have c2: "fetchUserData (example_hub (LastPage [post_at 9 (Some (2, []))])) (Fid 5650) (example_params 5)
     = Inr \<lparr>user = example_user,
            casts = [index_cast example_user (post_at 9 (Some (2, []))) (post_body (Some (2, [])))]\<rparr>"
    using p2
    by (simp add: fetchUserData_def resolve_identity_def example_hub_def example_params_def
          Let_def example_user_def del: paginate.simps)
  have so: "sortOrder (example_params 5) = Some newest"
    by (simp add: example_params_def)
  show ?thesis using c1 a1 so c3 c4 c2 ph by simp
qed

text \<open>A post body with one URL in both embed lists.\<close>

definition both_embeds :: cast_add_body where
  "both_embeds = \<lparr>body_text = ''look'', parentCastId = None, body_attachments = None,
     body_embeds = Some [\<lparr>embed_type = ''url'', embed_url = ''https://example.com/a''\<rparr>],
     embedsDeprecated = Some [\<lparr>embed_type = ''url'', embed_url = ''https://example.com/a''\<rparr>]\<rparr>"

text \<open>
  Claim C9, as the code has it.  The embeds of a translated post are the current embeds
  followed by the legacy ones (\<^verbatim>\<open>[...embeds, ...embedsDeprecated]\<close>), each list empty when
  absent; nothing is removed.
\<close>

theorem embeds_are_concatenated:
  "embeds (index_cast u message body) = or_empty (body_embeds body) @ or_empty (embedsDeprecated body) \<and>
   length (embeds (index_cast u message body))
     = length (or_empty (body_embeds body)) + length (or_empty (embedsDeprecated body))"
  by (simp add: index_cast_def)

text \<open>
  Claim C9 as stated fails: a URL that is in both representations is in the post twice.
\<close>

theorem embeds_duplicate_counterexample:
  "map embed_url (embeds (index_cast example_user (post_at 9 None) both_embeds))
     = [''https://example.com/a'', ''https://example.com/a'']"
  by (simp add: index_cast_def both_embeds_def or_empty_def)

section \<open>Streaming route\<close>

text \<open>
  The route \<^verbatim>\<open>app.get("/")\<close> of the streaming server and the callback it passes to
  \<^verbatim>\<open>streamText\<close>.  A run is recorded as a trace of events: the reads of
  \<^verbatim>\<open>signal.aborted\<close> with the value read, the upstream calls, the fragments written with
  \<^verbatim>\<open>stream.writeln\<close> and the sleeps.  A fragment keeps what kind of line it is; \<open>render\<close> gives
  its text (with the formatting of an instant as an argument).
\<close>

datatype fragment =
    Info string
  | ErrorLine string
  | ProfileLine string
  | PostHeader nat int
  | PostText string
  | AttachmentsHeader
  | AttachmentLine embed
  | EmbedsHeader
  | EmbedLine embed
  | Separator
  | ReactionsHeader
  | LikesLine nat
  | RecastsLine nat
  | NoPosts

definition show_int :: "int \<Rightarrow> string" where
  "show_int i = (if i < 0 then ''-'' @ decimal (nat (- i)) else decimal (nat i))"

fun render :: "(int \<Rightarrow> string) \<Rightarrow> fragment \<Rightarrow> string" where
  "render fmt (Info s) = s"
| "render fmt (ErrorLine s) = ''Error: '' @ s"
| "render fmt (ProfileLine s) = s"
| "render fmt (PostHeader n t) = ''['' @ decimal n @ ''] '' @ fmt t"
| "render fmt (PostText s) = s"
| "render fmt AttachmentsHeader = ''Attachments:''"
| "render fmt (AttachmentLine a) = ''- '' @ embed_type a @ '': '' @ embed_url a"
| "render fmt EmbedsHeader = ''Embeds:''"
| "render fmt (EmbedLine e) = ''- '' @ embed_url e"
| "render fmt Separator = ''---''"
| "render fmt ReactionsHeader = ''Reactions:''"
| "render fmt (LikesLine n) = ''- Likes: '' @ decimal n"
| "render fmt (RecastsLine n) = ''- Recasts: '' @ decimal n"
| "render fmt NoPosts = ''No posts found.''"

datatype stream_event =
    Observed bool
  | CallResolveFid string
  | GetUserData int
  | GetCasts int bool int "string option"
  | GetReactions string int
  | Written fragment
  | Slept nat

text \<open>
  What the run meets: how \<^verbatim>\<open>resolveFid\<close> settles for a name (error message or identity), how
  the profile request settles (error, or the \<^verbatim>\<open>messages\<close> field, \<open>None\<close> when it is not an
  array), the feed of posts, whether the cache holds a fresh tally for a reactions key, how
  the promise of the reactions batcher settles for a post, how \<^verbatim>\<open>processSingleItem\<close> settles
  for a key, and the moment the client goes away: \<open>abort_after = Some n\<close> says the signal
  is aborted once \<open>n\<close> awaited effects (calls, writes, sleeps) have happened.  As the hub
  record does, it carries \<^verbatim>\<open>String.prototype.toLowerCase\<close>.  The state of a run is its
  trace, the count of awaited effects, and the reactions batch processor.
\<close>

record stream_env =
  resolveFid_outcome :: "string \<Rightarrow> string + int"
  userData_outcome :: "int \<Rightarrow> string + SnapchainMessage list option"
  casts_feed :: "int \<Rightarrow> bool \<Rightarrow> int \<Rightarrow> feed"
  cached_reactions :: "string \<Rightarrow> (nat \<times> nat) option"
  reactions_outcome :: "string \<Rightarrow> int \<Rightarrow> string + nat \<times> nat"
  batch_item :: "string \<Rightarrow> string + nat \<times> nat"
  abort_after :: "nat option"
  env_toLowerCase :: "string \<Rightarrow> string"

record stream_state =
  trace :: "stream_event list"
  ticks :: nat
  batcher :: "(nat \<times> nat) BatchProcessor"

datatype 'a flow = Return | Throw string | Normal 'a

definition aborted :: "stream_env \<Rightarrow> stream_state \<Rightarrow> bool" where
  "aborted env st = (case abort_after env of None \<Rightarrow> False | Some n \<Rightarrow> n \<le> ticks st)"

definition observe :: "stream_env \<Rightarrow> stream_state \<Rightarrow> bool \<times> stream_state" where
  "observe env st = (aborted env st, st\<lparr>trace := trace st @ [Observed (aborted env st)]\<rparr>)"

definition emit :: "stream_event \<Rightarrow> stream_state \<Rightarrow> stream_state" where
  "emit e st = st\<lparr>trace := trace st @ [e], ticks := ticks st + 1\<rparr>"

definition writeln :: "fragment \<Rightarrow> stream_state \<Rightarrow> stream_state" where
  "writeln fr st = emit (Written fr) st"

definition write_all :: "fragment list \<Rightarrow> stream_state \<Rightarrow> stream_state" where
  "write_all frs st = foldl (\<lambda>s fr. writeln fr s) st frs"

text \<open>
  What the route does to the typed query before it streams: for \<^verbatim>\<open>all=true\<close> it sets
  \<^verbatim>\<open>includeReactions\<close> and \<^verbatim>\<open>includeParents\<close> to false and deletes the limit; it strips
  a leading \<^verbatim>\<open>@\<close> from the username and lower-cases it.  (The conversion of the query
  strings to booleans and numbers is not modelled.)
\<close>

definition route_query :: "stream_env \<Rightarrow> FarcasterQueryParams \<Rightarrow> FarcasterQueryParams" where
  "route_query env q =
     (let q1 = (if all q = Some True
                then q\<lparr>includeReactions := Some False, includeParents := Some False\<rparr>
                else q);
          q2 = (if all q1 = Some True then q1\<lparr>limit := None\<rparr> else q1)
      in q2\<lparr>query_username :=
               map_option (\<lambda>name. env_toLowerCase env
                                     (if prefix ''@'' name then drop 1 name else name))
                 (query_username q2)\<rparr>)"

text \<open>
  \<^verbatim>\<open>fetchCastReactions\<close>: a fresh cache entry is returned as it is; otherwise the key goes to
  the batch processor, whose \<^verbatim>\<open>add\<close> calls the producer (the two \<^verbatim>\<open>reactionsByCast\<close> requests,
  one event here), and the caller gets what the promise settles with, or the zero tally
  when it is rejected.  The function catches every error itself, so the \<^verbatim>\<open>catch\<close> around
  its call in the streaming loop is never entered.
\<close>

definition fetchCastReactions ::
  "stream_env \<Rightarrow> stream_state \<Rightarrow> string \<Rightarrow> int \<Rightarrow> (nat \<times> nat) \<times> stream_state"
where
  "fetchCastReactions env st castHash targetFid =
     (case cached_reactions env (''reactions:'' @ show_int targetFid @ '':'' @ castHash) of
        Some cached \<Rightarrow> (cached, st)
      | None \<Rightarrow>
          (let added = BatchProcessor_add (batch_item env) (batcher st)
                         (show_int targetFid @ '':'' @ castHash);
               st1 = emit (GetReactions castHash targetFid) (st\<lparr>batcher := snd added\<rparr>);
               b2 = producer_settles (snd added) (fst added) (reactions_outcome env castHash targetFid)
           in ((case promises b2 (fst added) of
                  Some (Inr reactions) \<Rightarrow> reactions
                | _ \<Rightarrow> (0, 0)),
               st1\<lparr>batcher := b2\<rparr>)))"

text \<open>
  The post built in the streaming loop, for a message whose instant \<^verbatim>\<open>toISOString\<close> can
  format (the loop below has the other case), and the fragments written for it.
  \<^verbatim>\<open>cast.parentCast\<close> is never assigned, so the reply block is never written.
\<close>

definition stream_cast :: "FarcasterUser \<Rightarrow> SnapchainMessage \<Rightarrow> cast_add_body \<Rightarrow> FarcasterCast" where
  "stream_cast u message body =
     \<lparr>hash = msg_hash message,
      threadHash = (case parentCastId body of None \<Rightarrow> [] | Some parent \<Rightarrow> snd parent),
      parentHash = map_option snd (parentCastId body),
      author_fid = fid u,
      author_username = username u,
      cast_text = body_text body,
      cast_timestamp = (case msg_timestamp message of
                          Some t \<Rightarrow> FARCASTER_EPOCH + t * 1000
                        | None \<Rightarrow> 0),
      attachments = or_empty (body_attachments body),
      embeds = or_empty (body_embeds body) @ or_empty (embedsDeprecated body),
      likes = 0,
      recasts = 0\<rparr>"

definition post_fragments :: "FarcasterCast \<Rightarrow> cast_add_body \<Rightarrow> nat \<Rightarrow> fragment list" where
  "post_fragments cast body processedCount =
     (let allEmbeds = filter (\<lambda>e. truthy (embed_url e))
                        (or_empty (body_embeds body) @ or_empty (embedsDeprecated body))
      in [PostHeader (processedCount + 1) (cast_timestamp cast), PostText (cast_text cast)]
         @ (if or_empty (body_attachments body) \<noteq> []
            then AttachmentsHeader # map AttachmentLine (or_empty (body_attachments body)) else [])
         @ (if allEmbeds \<noteq> [] then EmbedsHeader # map EmbedLine allEmbeds else [])
         @ [Separator])"

text \<open>The block \<^verbatim>\<open>if (!signal.aborted) { \<dots> }\<close> after the separator of a post.\<close>

definition reactions_step :: "stream_env \<Rightarrow> FarcasterCast \<Rightarrow> stream_state \<Rightarrow> stream_state" where
  "reactions_step env cast st =
     (let checked = observe env st in
      if \<not> fst checked
      then (let fetched = fetchCastReactions env (snd checked) (hash cast) (author_fid cast)
            in write_all [ReactionsHeader, LikesLine (fst (fst fetched)),
                          RecastsLine (snd (fst fetched)), Separator] (snd fetched))
      else snd checked)"

definition over_limit :: "int option \<Rightarrow> nat \<Rightarrow> bool" where
  "over_limit targetLimit castCount =
     (case targetLimit of None \<Rightarrow> False | Some n \<Rightarrow> int castCount > n)"

definition limit_reached :: "int option \<Rightarrow> nat \<Rightarrow> bool" where
  "limit_reached targetLimit castCount =
     (case targetLimit of None \<Rightarrow> False | Some n \<Rightarrow> int castCount \<ge> n)"

text \<open>
  The \<^verbatim>\<open>for\<close> loop over the messages of a page, on the pair
  \<open>(castCount, processedCount)\<close>, and the \<^verbatim>\<open>do \<dots> while\<close> loop over the pages.  A loop ends
  normally with the counters, by the \<^verbatim>\<open>return\<close> of the callback, or by an error thrown: a
  failed page request, or the \<^verbatim>\<open>RangeError\<close> of \<^verbatim>\<open>toISOString\<close> in the object literal of the
  post.
\<close>

fun stream_messages ::
  "stream_env \<Rightarrow> bool \<Rightarrow> int option \<Rightarrow> FarcasterUser \<Rightarrow> SnapchainMessage list \<Rightarrow> nat \<times> nat
     \<Rightarrow> stream_state \<Rightarrow> (nat \<times> nat) flow \<times> stream_state"
where
  "stream_messages env incl targetLimit u [] counts st = (Normal counts, st)"
| "stream_messages env incl targetLimit u (message # rest) counts st =
     (let checked = observe env st in
      if fst checked then (Return, snd checked)
      else case castAddBody message of
             None \<Rightarrow> stream_messages env incl targetLimit u rest counts (snd checked)
           | Some body \<Rightarrow>
               if \<not> incl \<and> parentCastId body \<noteq> None
               then stream_messages env incl targetLimit u rest counts (snd checked)
               else if over_limit targetLimit (fst counts + 1)
               then (Normal (fst counts + 1, snd counts), snd checked)
               else if \<not> toISOString_returns (instant message)
               then (Throw invalid_time_value, snd checked)
               else (let cast = stream_cast u message body;
                         st2 = write_all (post_fragments cast body (snd counts)) (snd checked);
                         st4 = reactions_step env cast st2;
                         checked' = observe env st4
                     in if fst checked' then (Return, snd checked')
                        else stream_messages env incl targetLimit u rest
                               (fst counts + 1, snd counts + 1)
                               (emit (Slept 50) (snd checked'))))"

fun stream_pages ::
  "stream_env \<Rightarrow> bool \<Rightarrow> int option \<Rightarrow> FarcasterUser \<Rightarrow> bool \<Rightarrow> int \<Rightarrow> feed \<Rightarrow> string option
     \<Rightarrow> nat \<times> nat \<Rightarrow> stream_state \<Rightarrow> (nat \<times> nat) flow \<times> stream_state"
where
  "stream_pages env incl targetLimit u reverse pageSize (Failure message) pageToken counts st =
     (let checked = observe env st in
      if fst checked then (Return, snd checked)
      else (Throw message, emit (GetCasts (fid u) reverse pageSize pageToken) (snd checked)))"
| "stream_pages env incl targetLimit u reverse pageSize (LastPage messages) pageToken counts st =
     (let checked = observe env st in
      if fst checked then (Return, snd checked)
      else stream_messages env incl targetLimit u messages counts
             (emit (GetCasts (fid u) reverse pageSize pageToken) (snd checked)))"
| "stream_pages env incl targetLimit u reverse pageSize (MorePage messages token following) pageToken counts st =
     (let checked = observe env st in
      if fst checked then (Return, snd checked)
      else case stream_messages env incl targetLimit u messages counts
                  (emit (GetCasts (fid u) reverse pageSize pageToken) (snd checked)) of
             (Normal counts', st3) \<Rightarrow>
               if limit_reached targetLimit (fst counts') \<or> \<not> truthy token then (Normal counts', st3)
               else stream_pages env incl targetLimit u reverse pageSize following (Some token) counts' st3
           | (Return, st3) \<Rightarrow> (Return, st3)
           | (Throw error, st3) \<Rightarrow> (Throw error, st3))"

text \<open>
  The callback from its start: identity, profile, posts, and the \<^verbatim>\<open>catch\<close> around them.
  \<^verbatim>\<open>fetchWithTimeout\<close> throws on a response that is not ok, so the branch for
  \<^verbatim>\<open>!userResponse.ok\<close> is never taken.  An absent username is the empty string: the route has
  answered 400 when both the identity and the username are missing.
\<close>

definition stream_user :: "FarcasterQueryParams \<Rightarrow> int \<Rightarrow> SnapchainMessage list \<Rightarrow> FarcasterUser" where
  "stream_user q f messages =
     (let u0 = \<lparr>fid = f,
                username = (case query_username q of Some name \<Rightarrow> name | None \<Rightarrow> []),
                displayName = [], bio = [], pfp = [], url = [],
                location = [], twitter = [], github = []\<rparr>;
          u1 = process_user_messages u0 messages
      in if \<not> truthy (username u1)
         then u1\<lparr>username := (if truthy_opt (query_username q)
                                then (case query_username q of Some name \<Rightarrow> name | None \<Rightarrow> [])
                                else ''user_'' @ show_int f)\<rparr>
         else u1)"

definition profile_fragments :: "FarcasterUser \<Rightarrow> fragment list" where
  "profile_fragments u =
     [ProfileLine ''Farcaster User Profile'',
      ProfileLine (''==================='' @ [CHR 0x0A]),
      ProfileLine (''Username: '' @ username u),
      ProfileLine (''Display Name: '' @ (if truthy (displayName u) then displayName u else ''N/A'')),
      ProfileLine (''FID: '' @ show_int (fid u))]
     @ (if truthy (bio u) then [ProfileLine (''Bio: '' @ bio u)] else [])
     @ (if truthy (pfp u) then [ProfileLine (''Profile Picture: '' @ pfp u)] else [])
     @ (if truthy (url u) then [ProfileLine (''URL: '' @ url u)] else [])
     @ (if truthy (location u) then [ProfileLine (''Location: '' @ location u)] else [])
     @ (if truthy (twitter u) then [ProfileLine (''Twitter: @'' @ twitter u)] else [])
     @ (if truthy (github u) then [ProfileLine (''GitHub: '' @ github u)] else [])
     @ [ProfileLine (CHR 0x0A # ''Posts''), ProfileLine (''====='' @ [CHR 0x0A])]"

definition stream_identity ::
  "stream_env \<Rightarrow> FarcasterQueryParams \<Rightarrow> stream_state \<Rightarrow> int flow \<times> stream_state"
where
  "stream_identity env q st =
     (case query_fid q of
        Some n \<Rightarrow>
          if n \<le> 0 then (Return, writeln (ErrorLine ''Invalid FID provided'') st)
          else (Normal n, st)
      | None \<Rightarrow>
          (let sanitizedUsername =
                 env_toLowerCase env (case query_username q of Some name \<Rightarrow> name | None \<Rightarrow> []);
               st1 = writeln (Info (''Resolving FID for username: '' @ sanitizedUsername)) st;
               st2 = emit (CallResolveFid sanitizedUsername) st1
           in case resolveFid_outcome env sanitizedUsername of
                Inl error \<Rightarrow>
                  (Return, writeln (ErrorLine (''Failed to resolve username: '' @ error)) st2)
              | Inr f \<Rightarrow> (Normal f, writeln (Info (''Resolved FID: '' @ show_int f)) st2)))"

definition stream_posts ::
  "stream_env \<Rightarrow> FarcasterQueryParams \<Rightarrow> FarcasterUser \<Rightarrow> stream_state \<Rightarrow> unit flow \<times> stream_state"
where
  "stream_posts env q u st =
     (let reverse = (sortOrder q \<noteq> Some oldest);
          targetLimit = (case limit q of None \<Rightarrow> None | Some n \<Rightarrow> if n = 0 then None else Some n);
          incl = (includeReplies q = Some True);
          pageSize = (if incl then (case targetLimit of Some n \<Rightarrow> min 100 n | None \<Rightarrow> 100)
                      else (case targetLimit of Some n \<Rightarrow> min 100 (max (n * 2) 20) | None \<Rightarrow> 100))
      in case stream_pages env incl targetLimit u reverse pageSize
                (casts_feed env (fid u) reverse pageSize) None (0, 0) st of
           (Normal counts, st1) \<Rightarrow>
             (Normal (), if snd counts = 0 then writeln NoPosts st1 else st1)
         | (Return, st1) \<Rightarrow> (Return, st1)
         | (Throw error, st1) \<Rightarrow> (Throw error, st1))"

definition stream_profile ::
  "stream_env \<Rightarrow> FarcasterQueryParams \<Rightarrow> int \<Rightarrow> stream_state \<Rightarrow> unit flow \<times> stream_state"
where
  "stream_profile env q f st =
     (let checked = observe env st in
      if fst checked then (Return, snd checked)
      else (let st1 = emit (GetUserData f) (snd checked) in
            case userData_outcome env f of
              Inl error \<Rightarrow> (Throw error, st1)
            | Inr userData \<Rightarrow>
                (let checked1 = observe env st1 in
                 if fst checked1 then (Return, snd checked1)
                 else case userData of
                        None \<Rightarrow>
                          (Return,
                           writeln (ErrorLine ''Invalid user data response format: messages array missing'')
                             (snd checked1))
                      | Some messages \<Rightarrow>
                          (let u = stream_user q f messages;
                               checked2 = observe env (snd checked1)
                           in if fst checked2 then (Return, snd checked2)
                              else stream_posts env q u
                                     (write_all (profile_fragments u) (snd checked2))))))"

definition stream_handler ::
  "stream_env \<Rightarrow> (nat \<times> nat) BatchProcessor \<Rightarrow> FarcasterQueryParams \<Rightarrow> stream_state"
where
  "stream_handler env b0 q =
     (let checked = observe env \<lparr>trace = [], ticks = 0, batcher = b0\<rparr> in
      if fst checked then snd checked
      else case (case stream_identity env q (snd checked) of
                   (Normal f, st1) \<Rightarrow> stream_profile env q f st1
                 | (Return, st1) \<Rightarrow> (Return, st1)
                 | (Throw error, st1) \<Rightarrow> (Throw error, st1)) of
             (Throw error, st2) \<Rightarrow>
               (let checked' = observe env st2 in
                if \<not> fst checked' then writeln (ErrorLine error) (snd checked') else snd checked')
           | (Return, st2) \<Rightarrow> st2
           | (Normal finished, st2) \<Rightarrow> st2)"

datatype response = BadRequest string | Streamed stream_state

definition route ::
  "stream_env \<Rightarrow> (nat \<times> nat) BatchProcessor \<Rightarrow> FarcasterQueryParams \<Rightarrow> response"
where
  "route env b0 q =
     (if query_fid q = None \<and> \<not> truthy_opt (query_username q)
      then BadRequest ''Either fid or username is required''
      else if (case limit q of None \<Rightarrow> False | Some n \<Rightarrow> n \<noteq> 0 \<and> n \<le> 0)
      then BadRequest ''Invalid limit parameter''
      else Streamed (stream_handler env b0 (route_query env q)))"

text \<open>Fixtures for the examples.\<close>

definition stream_example_env :: "feed \<Rightarrow> nat option \<Rightarrow> stream_env" where
  "stream_example_env f cancel =
     \<lparr>resolveFid_outcome = (\<lambda>name. Inr 5650),
      userData_outcome = (\<lambda>n. Inr (Some [])),
      casts_feed = (\<lambda>n reverse pageSize. f),
      cached_reactions = (\<lambda>key. None),
      reactions_outcome = (\<lambda>castHash targetFid. Inr (3, 1)),
      batch_item = (\<lambda>key. Inr (3, 1)),
      abort_after = cancel,
      env_toLowerCase = toLowerCase_ascii\<rparr>"

definition all_query :: FarcasterQueryParams where
  "all_query = \<lparr>query_fid = Some 5650, query_username = None, limit = None,
      includeReplies = None, includeReactions = Some True, includeParents = Some True,
      all = Some True, sortOrder = None\<rparr>"


text \<open>
  For the statements about cancellation.  \<open>quiet_after_abort\<close>: nothing but further reads
  of the signal follows the first read that found it aborted.  \<open>guarded\<close> marks the events
  that start a unit of work: the request for a page, the call for a post's reactions,
  the first fragment of a post; \<open>checks_precede\<close>: each of them comes directly after a read
  of the signal that found it not aborted.
\<close>

fun quiet_after_abort :: "stream_event list \<Rightarrow> bool" where
  "quiet_after_abort [] = True"
| "quiet_after_abort (e # es) =
     (if e = Observed True then (\<forall>x \<in> set es. x = Observed True) else quiet_after_abort es)"

fun guarded :: "stream_event \<Rightarrow> bool" where
  "guarded (GetCasts f reverse pageSize pageToken) = True"
| "guarded (GetReactions castHash targetFid) = True"
| "guarded (Written (PostHeader n t)) = True"
| "guarded e = False"

fun checked_after :: "stream_event option \<Rightarrow> stream_event list \<Rightarrow> bool" where
  "checked_after prev [] = True"
| "checked_after prev (e # es) =
     ((guarded e \<longrightarrow> prev = Some (Observed False)) \<and> checked_after (Some e) es)"

definition checks_precede :: "stream_event list \<Rightarrow> bool" where
  "checks_precede tr = checked_after None tr"

section \<open>Properties of the streaming route\<close>

definition live :: "stream_state \<Rightarrow> bool" where
  "live st = (Observed True \<notin> set (trace st))"

definition good :: "stream_state \<Rightarrow> bool" where
  "good st = (live st \<and> checks_precede (trace st))"

definition just_checked :: "stream_state \<Rightarrow> bool" where
  "just_checked st = (trace st \<noteq> [] \<and> last (trace st) = Observed False)"

definition just_aborted :: "stream_env \<Rightarrow> stream_state \<Rightarrow> bool" where
  "just_aborted env st =
     (aborted env st \<and> checks_precede (trace st) \<and>
      (\<exists>pre. trace st = pre @ [Observed True] \<and> Observed True \<notin> set pre))"

definition settled :: "'a flow \<times> stream_state \<Rightarrow> bool" where
  "settled r =
     (checks_precede (trace (snd r)) \<and>
      (case fst r of Return \<Rightarrow> quiet_after_abort (trace (snd r)) | _ \<Rightarrow> live (snd r)))"

lemma quiet_append:
  "Observed True \<notin> set pre \<Longrightarrow> quiet_after_abort (pre @ xs) = quiet_after_abort xs"
  by (induction pre) auto

lemma quiet_live: "Observed True \<notin> set tr \<Longrightarrow> quiet_after_abort tr"
  using quiet_append[of tr "[]"] by simp

lemma checked_after_append:
  "checked_after p (xs @ ys)
     = (checked_after p xs \<and> checked_after (if xs = [] then p else Some (last xs)) ys)"
  by (induction xs arbitrary: p) auto

lemma checks_snoc:
  "checks_precede (tr @ [e])
     = (checks_precede tr \<and> (guarded e \<longrightarrow> tr \<noteq> [] \<and> last tr = Observed False))"
  by (auto simp: checks_precede_def checked_after_append)

lemma good_emit:
  assumes "good st" and "e \<noteq> Observed True" and "guarded e \<longrightarrow> just_checked st"
  shows "good (emit e st)"
  using assms by (auto simp: good_def live_def emit_def checks_snoc just_checked_def)

lemma emit_not_checked: "\<not> guarded e \<Longrightarrow> e \<noteq> Observed False \<Longrightarrow> \<not> just_checked (emit e st)"
  by (simp add: just_checked_def emit_def)

lemma good_writeln:
  assumes "good st" and "guarded (Written fr) \<longrightarrow> just_checked st"
  shows "good (writeln fr st)"
  using assms by (simp add: writeln_def good_emit)

lemma good_write_all:
  assumes "good st" and "\<forall>fr \<in> set frs. \<not> guarded (Written fr)"
  shows "good (write_all frs st)"
  using assms unfolding write_all_def
  by (induction frs arbitrary: st) (simp_all add: good_writeln)

lemma write_all_Cons: "write_all (fr # frs) st = write_all frs (writeln fr st)"
  by (simp add: write_all_def)

lemma aborted_trace_update [simp]: "aborted env (st\<lparr>trace := tr\<rparr>) = aborted env st"
  by (simp add: aborted_def split: option.splits)

lemma observe_false:
  assumes "good st" and "\<not> fst (observe env st)"
  shows "good (snd (observe env st)) \<and> just_checked (snd (observe env st))"
  using assms
  by (auto simp: observe_def good_def live_def checks_snoc just_checked_def)

lemma observe_true:
  assumes "good st" and "fst (observe env st)"
  shows "just_aborted env (snd (observe env st))"
  using assms
  by (auto simp: observe_def good_def live_def checks_snoc just_aborted_def)

lemma just_aborted_quiet:
  assumes "just_aborted env st"
  shows "checks_precede (trace st) \<and> quiet_after_abort (trace st)"
  using assms by (auto simp: just_aborted_def quiet_append)

lemma just_aborted_observe:
  assumes "just_aborted env st"
  shows "fst (observe env st) \<and> checks_precede (trace (snd (observe env st))) \<and>
         quiet_after_abort (trace (snd (observe env st)))"
  using assms by (auto simp: just_aborted_def observe_def checks_snoc quiet_append)

lemma settled_Return: "just_aborted env st \<Longrightarrow> settled (Return, st)"
  by (simp add: settled_def just_aborted_quiet)

lemma settled_live: "good st \<Longrightarrow> fl \<noteq> Return \<Longrightarrow> settled (fl, st)"
  by (cases fl) (simp_all add: settled_def good_def)

lemma settled_good_Return: "good st \<Longrightarrow> settled (Return, st)"
  by (simp add: settled_def good_def live_def quiet_live)

lemma post_fragments_shape:
  "\<exists>frs. post_fragments cast body n = PostHeader (n + 1) (cast_timestamp cast) # frs \<and>
         (\<forall>fr \<in> set frs. \<not> guarded (Written fr))"
  by (auto simp: post_fragments_def Let_def)

lemma good_write_post:
  assumes "good st" and "just_checked st"
  shows "good (write_all (post_fragments cast body n) st)"
proof -
  obtain frs where frs: "post_fragments cast body n = PostHeader (n + 1) (cast_timestamp cast) # frs"
    "\<forall>fr \<in> set frs. \<not> guarded (Written fr)"
    using post_fragments_shape by blast
  have "good (writeln (PostHeader (n + 1) (cast_timestamp cast)) st)"
    using assms by (simp add: good_writeln)
  then show ?thesis
    using frs by (simp add: write_all_Cons good_write_all)
qed

lemma good_fetchCastReactions:
  assumes "good st" and "just_checked st"
  shows "good (snd (fetchCastReactions env st castHash targetFid))"
proof (cases "cached_reactions env (''reactions:'' @ show_int targetFid @ '':'' @ castHash)")
  case (Some cached)
  then show ?thesis using assms by (simp add: fetchCastReactions_def)
next
  case None
  let ?added = "BatchProcessor_add (batch_item env) (batcher st) (show_int targetFid @ '':'' @ castHash)"
  have g: "good (st\<lparr>batcher := snd ?added\<rparr>)" "just_checked (st\<lparr>batcher := snd ?added\<rparr>)"
    using assms by (simp_all add: good_def live_def just_checked_def)
  have "good (emit (GetReactions castHash targetFid) (st\<lparr>batcher := snd ?added\<rparr>))"
    using g by (simp add: good_emit)
  then show ?thesis
    using None by (simp add: fetchCastReactions_def Let_def good_def live_def)
qed

lemma reactions_step_cases:
  assumes "good st"
  shows "good (reactions_step env cast st) \<or> just_aborted env (reactions_step env cast st)"
proof (cases "fst (observe env st)")
  case True
  then show ?thesis
    using observe_true[OF assms True] by (simp add: reactions_step_def Let_def)
next
  case False
  let ?st1 = "snd (observe env st)"
  have g1: "good ?st1" "just_checked ?st1"
    using observe_false[OF assms False] by simp_all
  let ?fetched = "fetchCastReactions env ?st1 (hash cast) (author_fid cast)"
  have "good (snd ?fetched)" using g1 by (rule good_fetchCastReactions)
  then have "good (write_all [ReactionsHeader, LikesLine (fst (fst ?fetched)),
                          RecastsLine (snd (fst ?fetched)), Separator] (snd ?fetched))"
    by (rule good_write_all) simp
  then show ?thesis
    using False by (simp add: reactions_step_def Let_def)
qed

lemma stream_messages_settled:
  assumes "good st"
  shows "settled (stream_messages env incl targetLimit u messages counts st)"
  using assms
proof (induction messages arbitrary: counts st)
  case Nil
  then show ?case by (simp add: settled_live)
next
  case (Cons message rest)
  show ?case
  proof (cases "fst (observe env st)")
    case True
    then show ?thesis
      using observe_true[OF Cons.prems True] by (simp add: Let_def settled_Return)
  next
    case False
    let ?st1 = "snd (observe env st)"
    have g1: "good ?st1" "just_checked ?st1"
      using observe_false[OF Cons.prems False] by simp_all
    show ?thesis
    proof (cases "castAddBody message")
      case None
      then show ?thesis using False Cons.IH[OF g1(1)] by (simp add: Let_def)
    next
      case (Some body)
      show ?thesis
      proof (cases "\<not> incl \<and> parentCastId body \<noteq> None")
        case True
        then show ?thesis using False Some Cons.IH[OF g1(1)] by (simp add: Let_def)
      next
        case notreply: False
        show ?thesis
        proof (cases "over_limit targetLimit (fst counts + 1)")
          case True
          then show ?thesis
            using False Some notreply g1(1) by (auto simp: Let_def settled_live)
        next
          case within: False
          show ?thesis
          proof (cases "toISOString_returns (instant message)")
            case False
            then show ?thesis
              using \<open>\<not> fst (observe env st)\<close> Some notreply within g1(1)
              by (auto simp: Let_def settled_live)
          next
            case datable: True
          let ?cast = "stream_cast u message body"
          let ?st2 = "write_all (post_fragments ?cast body (snd counts)) ?st1"
          let ?st4 = "reactions_step env ?cast ?st2"
          have g2: "good ?st2" using g1 by (rule good_write_post)
          have unf: "stream_messages env incl targetLimit u (message # rest) counts st
                 = (if fst (observe env ?st4) then (Return, snd (observe env ?st4))
                    else stream_messages env incl targetLimit u rest
                           (fst counts + 1, snd counts + 1)
                           (emit (Slept 50) (snd (observe env ?st4))))"
            using False Some notreply within datable by (auto simp: Let_def)
          from reactions_step_cases[OF g2, of env ?cast]
          show ?thesis
          proof
            assume g4: "good ?st4"
            show ?thesis
            proof (cases "fst (observe env ?st4)")
              case True
              then show ?thesis
                using observe_true[OF g4 True] unf by (simp add: settled_Return)
            next
              case f4: False
              have "good (snd (observe env ?st4))" using observe_false[OF g4 f4] by simp
              then have "good (emit (Slept 50) (snd (observe env ?st4)))"
                by (simp add: good_emit)
              from Cons.IH[OF this] show ?thesis using f4 unf by simp
            qed
          next
            assume a4: "just_aborted env ?st4"
            then show ?thesis
              using just_aborted_observe[OF a4] unf by (simp add: settled_def)
          qed
          qed
        qed
      qed
    qed
  qed
qed

lemma stream_pages_settled:
  assumes "good st"
  shows "settled (stream_pages env incl targetLimit u reverse pageSize f pageToken counts st)"
  using assms
proof (induction f arbitrary: pageToken counts st)
  case (Failure message)
  show ?case
  proof (cases "fst (observe env st)")
    case True
    then show ?thesis
      using observe_true[OF Failure.prems True] by (simp add: Let_def settled_Return)
  next
    case False
    have "good (emit (GetCasts (fid u) reverse pageSize pageToken) (snd (observe env st)))"
      using observe_false[OF Failure.prems False] by (simp add: good_emit)
    then show ?thesis using False by (simp add: Let_def settled_live)
  qed
next
  case (LastPage messages)
  show ?case
  proof (cases "fst (observe env st)")
    case True
    then show ?thesis
      using observe_true[OF LastPage.prems True] by (simp add: Let_def settled_Return)
  next
    case False
    have "good (emit (GetCasts (fid u) reverse pageSize pageToken) (snd (observe env st)))"
      using observe_false[OF LastPage.prems False] by (simp add: good_emit)
    then show ?thesis using False by (simp add: Let_def stream_messages_settled)
  qed
next
  case (MorePage messages token following)
  show ?case
  proof (cases "fst (observe env st)")
    case True
    then show ?thesis
      using observe_true[OF MorePage.prems True] by (simp add: Let_def settled_Return)
  next
    case False
    let ?st2 = "emit (GetCasts (fid u) reverse pageSize pageToken) (snd (observe env st))"
    have g2: "good ?st2"
      using observe_false[OF MorePage.prems False] by (simp add: good_emit)
    have s: "settled (stream_messages env incl targetLimit u messages counts ?st2)"
      using g2 by (rule stream_messages_settled)
    obtain fl st3 where r: "stream_messages env incl targetLimit u messages counts ?st2 = (fl, st3)"
      by (cases "stream_messages env incl targetLimit u messages counts ?st2")
    show ?thesis
    proof (cases fl)
      case Return
      then show ?thesis using False r s by (simp add: Let_def)
    next
      case (Throw error)
      then show ?thesis using False r s by (simp add: Let_def)
    next
      case (Normal counts')
      then have g3: "good st3" using s r by (simp add: settled_def good_def)
      show ?thesis
      proof (cases "limit_reached targetLimit (fst counts') \<or> \<not> truthy token")
        case True
        then show ?thesis using False r s Normal by (auto simp: Let_def)
      next
        case more: False
        then show ?thesis
          using False r Normal MorePage.IH[OF g3, of "Some token" counts'] by (auto simp: Let_def)
      qed
    qed
  qed
qed

lemma stream_posts_settled:
  assumes "good st"
  shows "settled (stream_posts env q u st)"
proof -
  let ?reverse = "sortOrder q \<noteq> Some oldest"
  let ?tl = "case limit q of None \<Rightarrow> None | Some n \<Rightarrow> if n = 0 then None else Some n"
  let ?incl = "includeReplies q = Some True"
  let ?ps = "if ?incl then (case ?tl of Some n \<Rightarrow> min 100 n | None \<Rightarrow> 100)
             else (case ?tl of Some n \<Rightarrow> min 100 (max (n * 2) 20) | None \<Rightarrow> 100)"
  let ?r = "stream_pages env ?incl ?tl u ?reverse ?ps (casts_feed env (fid u) ?reverse ?ps) None (0, 0) st"
  have s: "settled ?r" using assms by (rule stream_pages_settled)
  obtain fl st1 where r: "?r = (fl, st1)" by (cases ?r)
  have unf: "stream_posts env q u st
     = (case ?r of
           (Normal counts, st1) \<Rightarrow> (Normal (), if snd counts = 0 then writeln NoPosts st1 else st1)
         | (Return, st1) \<Rightarrow> (Return, st1)
         | (Throw error, st1) \<Rightarrow> (Throw error, st1))"
    by (simp add: stream_posts_def Let_def)
  show ?thesis
  proof (cases fl)
    case Return
    then show ?thesis using s r unfolding unf by (simp add: settled_def)
  next
    case (Throw error)
    then show ?thesis using s r unfolding unf by (simp add: settled_def)
  next
    case (Normal counts)
    then have "good st1" using s r by (simp add: settled_def good_def)
    then have "good (if snd counts = 0 then writeln NoPosts st1 else st1)"
      by (simp add: good_writeln)
    then show ?thesis using r Normal unfolding unf by (simp add: settled_live)
  qed
qed

lemma profile_fragments_unguarded: "\<forall>fr \<in> set (profile_fragments u). \<not> guarded (Written fr)"
  by (auto simp: profile_fragments_def)

lemma stream_profile_settled:
  assumes "good st"
  shows "settled (stream_profile env q f st)"
proof (cases "fst (observe env st)")
  case True
  then show ?thesis
    using observe_true[OF assms True] by (simp add: stream_profile_def Let_def settled_Return)
next
  case False
  let ?st1 = "emit (GetUserData f) (snd (observe env st))"
  have g1: "good ?st1" using observe_false[OF assms False] by (simp add: good_emit)
  show ?thesis
  proof (cases "userData_outcome env f")
    case (Inl error)
    then show ?thesis using False g1 by (simp add: stream_profile_def Let_def settled_live)
  next
    case (Inr userData)
    show ?thesis
    proof (cases "fst (observe env ?st1)")
      case True
      then show ?thesis
        using observe_true[OF g1 True] False Inr
        by (simp add: stream_profile_def Let_def settled_Return)
    next
      case f1: False
      let ?st2 = "snd (observe env ?st1)"
      have g2: "good ?st2" using observe_false[OF g1 f1] by simp
      show ?thesis
      proof (cases userData)
        case None
        have "good (writeln (ErrorLine ''Invalid user data response format: messages array missing'') ?st2)"
          using g2 by (simp add: good_writeln)
        then show ?thesis
          using False Inr f1 None by (simp add: stream_profile_def Let_def settled_good_Return)
      next
        case (Some messages)
        show ?thesis
        proof (cases "fst (observe env ?st2)")
          case True
          then show ?thesis
            using observe_true[OF g2 True] False Inr f1 Some
            by (simp add: stream_profile_def Let_def settled_Return)
        next
          case f2: False
          have "good (snd (observe env ?st2))" using observe_false[OF g2 f2] by simp
          then have "good (write_all (profile_fragments (stream_user q f messages)) (snd (observe env ?st2)))"
            using profile_fragments_unguarded by (rule good_write_all)
          then show ?thesis
            using False Inr f1 Some f2
            by (simp add: stream_profile_def Let_def stream_posts_settled)
        qed
      qed
    qed
  qed
qed

lemma stream_identity_settled:
  assumes "good st"
  shows "settled (stream_identity env q st)"
proof (cases "query_fid q")
  case (Some n)
  have "good (writeln (ErrorLine ''Invalid FID provided'') st)"
    using assms by (simp add: good_writeln)
  then show ?thesis
    using Some assms by (simp add: stream_identity_def settled_good_Return settled_live)
next
  case None
  let ?name = "env_toLowerCase env (case query_username q of Some name \<Rightarrow> name | None \<Rightarrow> [])"
  let ?st2 = "emit (CallResolveFid ?name) (writeln (Info (''Resolving FID for username: '' @ ?name)) st)"
  have g2: "good ?st2" using assms by (simp add: good_writeln good_emit)
  show ?thesis
  proof (cases "resolveFid_outcome env ?name")
    case (Inl error)
    have "good (writeln (ErrorLine (''Failed to resolve username: '' @ error)) ?st2)"
      using g2 by (simp add: good_writeln)
    then show ?thesis
      using None Inl by (simp add: stream_identity_def Let_def settled_good_Return)
  next
    case (Inr f)
    have "good (writeln (Info (''Resolved FID: '' @ show_int f)) ?st2)"
      using g2 by (simp add: good_writeln)
    then show ?thesis
      using None Inr by (simp add: stream_identity_def Let_def settled_live)
  qed
qed

lemma stream_handler_trace:
  "checks_precede (trace (stream_handler env b0 q)) \<and>
   quiet_after_abort (trace (stream_handler env b0 q))"
proof -
  let ?st0 = "\<lparr>trace = [], ticks = 0, batcher = b0\<rparr>"
  have g0: "good ?st0" by (simp add: good_def live_def checks_precede_def)
  show ?thesis
  proof (cases "fst (observe env ?st0)")
    case True
    then show ?thesis
      using just_aborted_quiet[OF observe_true[OF g0 True]] by (simp add: stream_handler_def Let_def)
  next
    case False
    let ?st1 = "snd (observe env ?st0)"
    have g1: "good ?st1" using observe_false[OF g0 False] by simp
    let ?inner = "case stream_identity env q ?st1 of
                   (Normal f, st1) \<Rightarrow> stream_profile env q f st1
                 | (Return, st1) \<Rightarrow> (Return, st1)
                 | (Throw error, st1) \<Rightarrow> (Throw error, st1)"
    have si: "settled (stream_identity env q ?st1)" using g1 by (rule stream_identity_settled)
    have inner: "settled ?inner"
    proof (cases "stream_identity env q ?st1")
      case (Pair fl st')
      show ?thesis
      proof (cases fl)
        case Return
        then show ?thesis using si Pair by (simp add: settled_def)
      next
        case (Throw error)
        then show ?thesis using si Pair by (simp add: settled_def)
      next
        case (Normal f)
        then have "good st'" using si Pair by (simp add: settled_def good_def)
        then show ?thesis using Pair Normal by (simp add: stream_profile_settled)
      qed
    qed
    have unf: "stream_handler env b0 q
       = (case ?inner of
             (Throw error, st2) \<Rightarrow>
               (let checked' = observe env st2 in
                if \<not> fst checked' then writeln (ErrorLine error) (snd checked') else snd checked')
           | (Return, st2) \<Rightarrow> st2
           | (Normal finished, st2) \<Rightarrow> st2)"
      using False by (simp add: stream_handler_def Let_def)
    show ?thesis
    proof (cases ?inner)
      case (Pair fl st2)
      show ?thesis
      proof (cases fl)
        case Return
        then show ?thesis using inner Pair unfolding unf by (simp add: settled_def)
      next
        case (Normal finished)
        then show ?thesis
          using inner Pair unfolding unf by (simp add: settled_def live_def quiet_live)
      next
        case (Throw error)
        then have g2: "good st2" using inner Pair by (simp add: settled_def good_def)
        show ?thesis
        proof (cases "fst (observe env st2)")
          case True
          then show ?thesis
            using just_aborted_quiet[OF observe_true[OF g2 True]] Pair Throw
            unfolding unf by (simp add: Let_def)
        next
          case f2: False
          have "good (writeln (ErrorLine error) (snd (observe env st2)))"
            using observe_false[OF g2 f2] by (simp add: good_writeln)
          then show ?thesis
            using Pair Throw f2 unfolding unf by (simp add: Let_def good_def live_def quiet_live)
        qed
      qed
    qed
  qed
qed

text \<open>A run in which the client goes away while the reactions of the first post are written.\<close>

definition cancelled_run :: stream_state where
  "cancelled_run =
     stream_handler (stream_example_env (LastPage [post_at 9 None, post_at 8 None]) (Some 14))
       BatchProcessor_new
       (route_query (stream_example_env (LastPage [post_at 9 None, post_at 8 None]) (Some 14))
          (example_params 5))"

lemmas stream_defs =
  stream_handler_def stream_identity_def stream_profile_def stream_posts_def
  stream_user_def profile_fragments_def post_fragments_def stream_cast_def reactions_step_def
  fetchCastReactions_def observe_def aborted_def emit_def writeln_def write_all_def
  over_limit_def limit_reached_def route_query_def show_int_def truthy_def truthy_opt_def
  or_empty_def BatchProcessor_add_def BatchProcessor_new_def producer_settles_def settle_def
  MAX_BATCH_SIZE_def FARCASTER_EPOCH_def instant_def toISOString_returns_def MAX_TIME_VALUE_def

lemma cancelled_run_trace:
  "trace cancelled_run =
    [Observed False, Observed False, GetUserData 5650, Observed False,
     Observed False, Written (ProfileLine ''Farcaster User Profile''),
     Written (ProfileLine (''==================='' @ [CHR 0x0A])),
     Written (ProfileLine (''Username: user_'' @ decimal 5650)),
     Written (ProfileLine ''Display Name: N/A''),
     Written (ProfileLine (''FID: '' @ decimal 5650)), Written (ProfileLine (CHR 0x0A # ''Posts'')),
     Written (ProfileLine (''====='' @ [CHR 0x0A])), Observed False,
     GetCasts 5650 True 20 None, Observed False,
     Written (PostHeader 1 1609459209000), Written (PostText ''gm''),
     Written Separator, Observed False, GetReactions ''0xaa'' 5650,
     Written ReactionsHeader, Written (LikesLine 3), Written (RecastsLine 1),
     Written Separator, Observed True]"
  by (simp add: cancelled_run_def stream_defs stream_example_env_def example_params_def
        post_at_def post_body_def Let_def)

lemma cancelled_run_batcher:
  "queue (batcher cancelled_run) = [(show_int 5650 @ '':0xaa'', 0)] \<and>
   timer (batcher cancelled_run) \<and> \<not> processing (batcher cancelled_run) \<and>
   single_items (batcher cancelled_run) = []"
  by (simp add: cancelled_run_def stream_defs stream_example_env_def example_params_def
        post_at_def post_body_def Let_def)

text \<open>
  Claim C8, as the code has it.  In the trace of the streaming handler, for every upstream
  and every moment of cancellation: after the first read of the signal that finds it
  aborted there are no upstream calls and no output, only further reads of the signal; and
  every page request, every first fragment of a post and every call for a post's reactions
  comes directly after a read of the signal that found it not aborted.  (The call for a
  post's reactions is \<^verbatim>\<open>fetchCastReactions\<close>, which sends the two \<^verbatim>\<open>reactionsByCast\<close> requests
  on a cache miss.)
\<close>

theorem handler_stops_on_abort:
  "quiet_after_abort (trace (stream_handler env b0 q)) \<and>
   checks_precede (trace (stream_handler env b0 q))"
  using stream_handler_trace[of env b0 q] by simp

theorem handler_stops_on_abort_witness:
  "quiet_after_abort (trace cancelled_run) \<and> checks_precede (trace cancelled_run) \<and>
   last (trace cancelled_run) = Observed True \<and>
   GetReactions ''0xaa'' 5650 \<in> set (trace cancelled_run)"
proof -
  have "quiet_after_abort (trace cancelled_run) \<and> checks_precede (trace cancelled_run)"
    unfolding cancelled_run_def by (rule handler_stops_on_abort)
  then show ?thesis by (simp add: cancelled_run_trace)
qed

text \<open>
  Claim C8 as stated fails for the calls of the batch processor.  A call for a post's
  reactions queues the key and arms the batch timer; when the handler returns on the
  abort, the timer is still armed, and when it fires \<^verbatim>\<open>process\<close> calls
  \<^verbatim>\<open>processSingleItem\<close> for the queued key, which sends the two reaction requests again.
  Here the client goes away while the reactions of the first post are written.
\<close>

theorem batch_timer_after_abort_counterexample:
  "last (trace cancelled_run) = Observed True \<and>
   timer (batcher cancelled_run) \<and>
   single_items (batcher cancelled_run) = [] \<and>
   single_items (timer_fires (batch_item (stream_example_env (LastPage [post_at 9 None, post_at 8 None]) (Some 14)))
                  (batcher cancelled_run))
     = [show_int 5650 @ '':0xaa'']"
proof -
  have "single_items (timer_fires (batch_item (stream_example_env (LastPage [post_at 9 None, post_at 8 None]) (Some 14)))
                  (batcher cancelled_run))
     = [show_int 5650 @ '':0xaa'']"
    using cancelled_run_batcher
    by (simp add: timer_fires_def process_single_items)
  then show ?thesis
    using cancelled_run_batcher by (simp add: cancelled_run_trace)
qed

text \<open>A run of the route for a request with \<^verbatim>\<open>all=true\<close>.\<close>

definition all_run :: stream_state where
  "all_run =
     stream_handler (stream_example_env (LastPage [post_at 9 None]) None) BatchProcessor_new
       (route_query (stream_example_env (LastPage [post_at 9 None]) None) all_query)"

text \<open>
  Claim C7 on the streaming route, at a request with \<^verbatim>\<open>all=true\<close> and
  \<^verbatim>\<open>includeReactions=true\<close>: the route sets \<^verbatim>\<open>includeReactions\<close> and \<^verbatim>\<open>includeParents\<close> to
  false, and the handler, which never reads them, calls \<^verbatim>\<open>fetchCastReactions\<close> for the post
  and writes the tally it gets.
\<close>

theorem all_mode_still_fetches_reactions:
  "route (stream_example_env (LastPage [post_at 9 None]) None) BatchProcessor_new all_query
     = Streamed all_run \<and>
   includeReactions (route_query (stream_example_env (LastPage [post_at 9 None]) None) all_query)
     = Some False \<and>
   includeParents (route_query (stream_example_env (LastPage [post_at 9 None]) None) all_query)
     = Some False \<and>
   trace all_run =
    [Observed False, Observed False, GetUserData 5650, Observed False,
     Observed False, Written (ProfileLine ''Farcaster User Profile''),
     Written (ProfileLine (''==================='' @ [CHR 0x0A])),
     Written (ProfileLine (''Username: user_'' @ decimal 5650)),
     Written (ProfileLine ''Display Name: N/A''),
     Written (ProfileLine (''FID: '' @ decimal 5650)), Written (ProfileLine (CHR 0x0A # ''Posts'')),
     Written (ProfileLine (''====='' @ [CHR 0x0A])), Observed False,
     GetCasts 5650 True 100 None, Observed False,
     Written (PostHeader 1 1609459209000), Written (PostText ''gm''),
     Written Separator, Observed False, GetReactions ''0xaa'' 5650,
     Written ReactionsHeader, Written (LikesLine 3), Written (RecastsLine 1),
     Written Separator, Observed False, Slept 50]"
proof -
  have r: "route (stream_example_env (LastPage [post_at 9 None]) None) BatchProcessor_new all_query
     = Streamed all_run"
    by (simp add: route_def all_run_def all_query_def)
  have f: "includeReactions (route_query (stream_example_env (LastPage [post_at 9 None]) None) all_query)
             = Some False \<and>
           includeParents (route_query (stream_example_env (LastPage [post_at 9 None]) None) all_query)
             = Some False"
    by (simp add: route_query_def all_query_def Let_def)
  have t: "trace all_run =
    [Observed False, Observed False, GetUserData 5650, Observed False,
     Observed False, Written (ProfileLine ''Farcaster User Profile''),
     Written (ProfileLine (''==================='' @ [CHR 0x0A])),
     Written (ProfileLine (''Username: user_'' @ decimal 5650)),
     Written (ProfileLine ''Display Name: N/A''),
     Written (ProfileLine (''FID: '' @ decimal 5650)), Written (ProfileLine (CHR 0x0A # ''Posts'')),
     Written (ProfileLine (''====='' @ [CHR 0x0A])), Observed False,
     GetCasts 5650 True 100 None, Observed False,
     Written (PostHeader 1 1609459209000), Written (PostText ''gm''),
     Written Separator, Observed False, GetReactions ''0xaa'' 5650,
     Written ReactionsHeader, Written (LikesLine 3), Written (RecastsLine 1),
     Written Separator, Observed False, Slept 50]"
    by (simp add: all_run_def stream_defs stream_example_env_def all_query_def
          post_at_def post_body_def Let_def)
  show ?thesis using r f t by simp
qed

end
